theory Spec2Isabelle
  imports Main
begin

section \<open>Python values and library functions used by the handler\<close>

text \<open>
  The repository is one function, \<open>lambda_handler\<close> in \<open>Extraction-Code.py\<close>. It calls
  two client libraries (spotipy, boto3) and a few functions of Python's standard library
  (\<open>os.environ.get\<close>, \<open>str.split\<close>, list indexing, \<open>datetime.now\<close>, \<open>str\<close>,
  \<open>json.dumps\<close>). The standard-library functions are modelled below as they are
  documented; the client libraries are parameters of the model (record \<open>world\<close>).
\<close>

subsection \<open>Exceptions\<close>

text \<open>
  The handler has no \<open>try\<close>: it never inspects an exception, so one constructor carrying
  the exception's description is enough. A raise is the value \<open>Inl e\<close>.
\<close>

datatype error = Raised string

subsection \<open>Decimal rendering of non-negative integers\<close>

definition digit_char :: "nat \<Rightarrow> char" where
  "digit_char d = ''0123456789'' ! (d mod 10)"

fun decimal :: "nat \<Rightarrow> string" where
  "decimal n = (if n < 10 then [digit_char n] else decimal (n div 10) @ [digit_char (n mod 10)])"

declare decimal.simps [simp del]

text \<open>\<open>zfill w s\<close> pads \<open>s\<close> with zeros on the left to width \<open>w\<close>, as the
  \<open>%0wd\<close> conversions inside \<open>datetime.isoformat\<close> do.\<close>

definition zfill :: "nat \<Rightarrow> string \<Rightarrow> string" where
  "zfill w s = replicate (w - length s) (CHR ''0'') @ s"

subsection \<open>\<open>str(datetime.now())\<close>\<close>

text \<open>
  \<open>datetime.now()\<close> without an argument is a naive local time. \<open>str(d)\<close> is
  \<open>d.isoformat(' ')\<close>: date, one space, time; the fraction \<open>.ffffff\<close> is written only
  when the microsecond field is not zero; a naive value has no offset suffix.
\<close>

record datetime =
  year :: nat
  month :: nat
  day :: nat
  hour :: nat
  minute :: nat
  second :: nat
  microsecond :: nat

definition str_datetime :: "datetime \<Rightarrow> string" where
  "str_datetime d =
     zfill 4 (decimal (year d)) @ ''-'' @ zfill 2 (decimal (month d)) @ ''-'' @
     zfill 2 (decimal (day d)) @ '' '' @
     zfill 2 (decimal (hour d)) @ '':'' @ zfill 2 (decimal (minute d)) @ '':'' @
     zfill 2 (decimal (second d)) @
     (if microsecond d \<noteq> 0 then ''.'' @ zfill 6 (decimal (microsecond d)) else [])"

text \<open>The ranges Python's \<open>datetime\<close> type enforces on its fields (the calendar's
  month lengths are left out: they only narrow \<open>day\<close> further).\<close>

definition valid_datetime :: "datetime \<Rightarrow> bool" where
  "valid_datetime d \<longleftrightarrow>
     1 \<le> year d \<and> year d \<le> 9999 \<and> 1 \<le> month d \<and> month d \<le> 12 \<and>
     1 \<le> day d \<and> day d \<le> 31 \<and> hour d < 24 \<and> minute d < 60 \<and> second d < 60 \<and>
     microsecond d < 1000000"

subsection \<open>\<open>str.split(sep)\<close> and indexing\<close>

text \<open>\<open>s.split(c)\<close> for a one-character separator: the pieces between the occurrences of
  \<open>c\<close>; never an empty list (\<open>''.split('/') == ['']\<close>).\<close>

fun py_split :: "string \<Rightarrow> char \<Rightarrow> string list" where
  "py_split [] sep = [[]]"
| "py_split (c # cs) sep =
     (if c = sep then [] # py_split cs sep
      else (case py_split cs sep of
              [] \<Rightarrow> [[c]]
            | p # ps \<Rightarrow> (c # p) # ps))"

text \<open>\<open>xs[i]\<close> for an integer \<open>i\<close>: position \<open>i\<close> when \<open>0 \<le> i < len(xs)\<close>,
  position \<open>len(xs) + i\<close> when \<open>-len(xs) \<le> i < 0\<close>, IndexError otherwise.\<close>

definition getitem :: "'a list \<Rightarrow> int \<Rightarrow> error + 'a" where
  "getitem xs i =
     (if 0 \<le> i \<and> i < int (length xs) then Inr (xs ! nat i)
      else if i < 0 \<and> - int (length xs) \<le> i then Inr (xs ! nat (int (length xs) + i))
      else Inl (Raised ''IndexError''))"

subsection \<open>Python values and \<open>json.dumps\<close>\<close>

text \<open>
  A Python \<open>str\<close> is a sequence of code points (\<open>0 .. 0x10FFFF\<close>). The values the API
  client hands back are what \<open>json.loads\<close> builds: \<open>None\<close>, booleans, integers, strings,
  lists and dictionaries with string keys (in insertion order). \<open>PyObject\<close> stands for any
  other Python object, which \<open>json.dumps\<close> refuses with TypeError. Floating-point numbers
  are not modelled.
\<close>

type_synonym pystr = "nat list"

datatype pyval =
    PyNone
  | PyBool bool
  | PyInt int
  | PyStr pystr
  | PyList "pyval list"
  | PyDict "(pystr \<times> pyval) list"
  | PyObject

definition dquote :: char where
  "dquote = CHR 0x22"

definition bslash :: char where
  "bslash = CHR 0x5C"

definition hex_char :: "nat \<Rightarrow> char" where
  "hex_char d = ''0123456789abcdef'' ! (d mod 16)"

text \<open>\<open>'{0:04x}'.format(n)\<close> for \<open>n < 0x10000\<close>.\<close>

definition hex4 :: "nat \<Rightarrow> string" where
  "hex4 n = [hex_char (n div 4096), hex_char (n div 256), hex_char (n div 16), hex_char n]"

text \<open>
  One code point under \<open>ensure_ascii=True\<close> (the default): the two-character escapes of
  \<open>ESCAPE_DCT\<close>, printable ASCII as itself, everything else as \<open>\uXXXX\<close>, a code point
  above the basic plane as a surrogate pair. The source computes the pair as
  \<open>0xd800 | ((n >> 10) & 0x3ff)\<close> and \<open>0xdc00 | (n & 0x3ff)\<close>; the operands share no bit,
  so \<open>|\<close> is \<open>+\<close> here.
\<close>

definition escape_char :: "nat \<Rightarrow> string" where
  "escape_char c =
     (if c = 0x22 then [bslash, dquote]
      else if c = 0x5C then [bslash, bslash]
      else if c = 0x08 then [bslash, CHR ''b'']
      else if c = 0x0C then [bslash, CHR ''f'']
      else if c = 0x0A then [bslash, CHR ''n'']
      else if c = 0x0D then [bslash, CHR ''r'']
      else if c = 0x09 then [bslash, CHR ''t'']
      else if 0x20 \<le> c \<and> c \<le> 0x7E then [char_of c]
      else if c < 0x10000 then bslash # CHR ''u'' # hex4 c
      else (let n = c - 0x10000;
                s1 = 0xD800 + (n div 1024) mod 1024;
                s2 = 0xDC00 + n mod 1024
            in bslash # CHR ''u'' # hex4 s1 @ bslash # CHR ''u'' # hex4 s2))"

definition encode_basestring_ascii :: "pystr \<Rightarrow> string" where
  "encode_basestring_ascii s = dquote # concat (map escape_char s) @ [dquote]"

text \<open>\<open>int.__repr__\<close>.\<close>

definition repr_int :: "int \<Rightarrow> string" where
  "repr_int i = (if i < 0 then CHR ''-'' # decimal (nat (- i)) else decimal (nat i))"

text \<open>\<open>sep.join(xs)\<close>.\<close>

fun join :: "string \<Rightarrow> string list \<Rightarrow> string" where
  "join sep [] = []"
| "join sep [x] = x"
| "join sep (x # y # ys) = x @ sep @ join sep (y # ys)"

text \<open>The text \<open>json.dumps\<close> builds with its default arguments: separators \<open>', '\<close> and
  \<open>': '\<close>, no indentation, keys in the dictionary's own order.\<close>

fun encode :: "pyval \<Rightarrow> string" where
  "encode PyNone = ''null''"
| "encode (PyBool b) = (if b then ''true'' else ''false'')"
| "encode (PyInt i) = repr_int i"
| "encode (PyStr s) = encode_basestring_ascii s"
| "encode (PyList xs) = ''['' @ join '', '' (map encode xs) @ '']''"
| "encode (PyDict kvs) =
     ''{'' @ join '', '' (map (\<lambda>kv. encode_basestring_ascii (fst kv) @ '': '' @ encode (snd kv)) kvs)
     @ ''}''"
| "encode PyObject = []"

fun serializable :: "pyval \<Rightarrow> bool" where
  "serializable PyObject = False"
| "serializable (PyList xs) = list_all serializable xs"
| "serializable (PyDict kvs) = list_all (\<lambda>kv. serializable (snd kv)) kvs"
| "serializable v = True"

text \<open>\<open>json.dumps(v)\<close>: the whole text, or TypeError when some part of \<open>v\<close> is not
  serializable (nothing is produced in that case).\<close>

definition json_dumps :: "pyval \<Rightarrow> error + string" where
  "json_dumps v = (if serializable v then Inr (encode v) else Inl (Raised ''TypeError''))"

section \<open>The external collaborators\<close>

text \<open>
  spotipy and boto3 are not part of the repository. What they answer is a parameter of the
  model: one field of \<open>world\<close> per library call of the handler, each returning a value or
  raising. The objects they hand out (credentials manager, API client, storage client) are
  opaque handles. \<open>environ\<close> is \<open>os.environ\<close>, \<open>now\<close> is what \<open>datetime.now()\<close> reads during
  this invocation.
\<close>

datatype manager = Manager nat
datatype spotify = Spotify_client nat
datatype s3client = S3_client nat

record world =
  environ :: "string \<Rightarrow> string option"
  now :: datetime
  SpotifyClientCredentials :: "string option \<Rightarrow> string option \<Rightarrow> error + manager"
  Spotify :: "manager \<Rightarrow> error + spotify"
  user_playlists :: "spotify \<Rightarrow> string \<Rightarrow> error + pyval"
  playlist_tracks :: "spotify \<Rightarrow> string \<Rightarrow> error + pyval"
  boto3_client :: "string \<Rightarrow> error + s3client"
  put_object :: "s3client \<Rightarrow> string \<Rightarrow> string \<Rightarrow> string \<Rightarrow> error + unit"

text \<open>The calls into the two libraries, with their arguments (\<open>put_object\<close>: client, Bucket,
  Key, Body). A run records each call it makes together with how it ended.\<close>

datatype call =
    CallSpotifyClientCredentials "string option" "string option"
  | CallSpotify manager
  | CallUserPlaylists spotify string
  | CallPlaylistTracks spotify string
  | CallBoto3Client string
  | CallPutObject s3client string string string

type_synonym event = "call \<times> error option"

type_synonym 'a run = "event list \<times> (error + 'a)"

definition outcome :: "error + 'a \<Rightarrow> error option" where
  "outcome r = (case r of Inl e \<Rightarrow> Some e | Inr x \<Rightarrow> None)"

text \<open>A library call: recorded, and its answer is the step's result.\<close>

definition invoke :: "call \<Rightarrow> error + 'a \<Rightarrow> 'a run" where
  "invoke c r = ([(c, outcome r)], r)"

text \<open>A computation inside the interpreter: nothing recorded.\<close>

definition local_step :: "error + 'a \<Rightarrow> 'a run" where
  "local_step r = ([], r)"

text \<open>Sequencing of statements: an exception ends the run where it is raised.\<close>

definition and_then :: "'a run \<Rightarrow> ('a \<Rightarrow> 'b run) \<Rightarrow> 'b run" where
  "and_then m f =
     (case snd m of
        Inl e \<Rightarrow> (fst m, Inl e)
      | Inr x \<Rightarrow> (fst m @ fst (f x), snd (f x)))"

section \<open>The handler\<close>

text \<open>\<open>lambda_handler(event, context)\<close>, statement by statement. It returns \<open>None\<close>.
  The keyword arguments of \<open>put_object\<close> are evaluated in the order written: the key is
  concatenated, then \<open>json.dumps\<close> runs, then the call is made.\<close>

definition lambda_handler :: "world \<Rightarrow> 'e \<Rightarrow> 'c \<Rightarrow> unit run" where
  "lambda_handler w event context =
    (let client_id = environ w ''client_id'';
         client_secret = environ w ''client_secret''
     in
     and_then (invoke (CallSpotifyClientCredentials client_id client_secret)
                      (SpotifyClientCredentials w client_id client_secret))
       (\<lambda>client_credentials_manager.
     and_then (invoke (CallSpotify client_credentials_manager)
                      (Spotify w client_credentials_manager))
       (\<lambda>sp.
     and_then (invoke (CallUserPlaylists sp ''spotify'') (user_playlists w sp ''spotify''))
       (\<lambda>playlists.
     let playlist_link = ''https://open.spotify.com/playlist/3OK8UdRoB6IfDEa1pNJTQE'' in
     and_then (local_step (getitem (py_split playlist_link (CHR ''/'')) (- 1)))
       (\<lambda>playlist_url.
     and_then (invoke (CallPlaylistTracks sp playlist_url) (playlist_tracks w sp playlist_url))
       (\<lambda>spotify_data.
     and_then (invoke (CallBoto3Client ''s3'') (boto3_client w ''s3''))
       (\<lambda>client.
     let filename = ''spotify_raw_'' @ str_datetime (now w) @ ''.json'' in
     and_then (local_step (json_dumps spotify_data))
       (\<lambda>body.
     invoke (CallPutObject client ''spotifyv'' (''raw-data/to_processed/'' @ filename) body)
            (put_object w client ''spotifyv'' (''raw-data/to_processed/'' @ filename) body)))))))))"

subsection \<open>What a run shows\<close>

text \<open>The \<open>put_object\<close> calls of a run, as (Bucket, Key, Body).\<close>

fun put_of :: "event \<Rightarrow> (string \<times> string \<times> string) option" where
  "put_of (CallPutObject c b k v, r) = Some (b, k, v)"
| "put_of (c, r) = None"

definition puts :: "event list \<Rightarrow> (string \<times> string \<times> string) list" where
  "puts t = List.map_filter put_of t"

text \<open>The objects a run stored: the \<open>put_object\<close> calls that returned normally.\<close>

definition stored :: "event list \<Rightarrow> (string \<times> string \<times> string) list" where
  "stored t = List.map_filter put_of (filter (\<lambda>ev. snd ev = None) t)"

subsection \<open>The handler without the list-playlists call\<close>

text \<open>The simplification the specification recommends (its design note on the unused
  call): the same statements with line 17, \<open>playlists=sp.user_playlists('spotify')\<close>,
  left out.\<close>

definition lambda_handler_without_playlists :: "world \<Rightarrow> 'e \<Rightarrow> 'c \<Rightarrow> unit run" where
  "lambda_handler_without_playlists w event context =
    (let client_id = environ w ''client_id'';
         client_secret = environ w ''client_secret''
     in
     and_then (invoke (CallSpotifyClientCredentials client_id client_secret)
                      (SpotifyClientCredentials w client_id client_secret))
       (\<lambda>client_credentials_manager.
     and_then (invoke (CallSpotify client_credentials_manager)
                      (Spotify w client_credentials_manager))
       (\<lambda>sp.
     let playlist_link = ''https://open.spotify.com/playlist/3OK8UdRoB6IfDEa1pNJTQE'' in
     and_then (local_step (getitem (py_split playlist_link (CHR ''/'')) (- 1)))
       (\<lambda>playlist_url.
     and_then (invoke (CallPlaylistTracks sp playlist_url) (playlist_tracks w sp playlist_url))
       (\<lambda>spotify_data.
     and_then (invoke (CallBoto3Client ''s3'') (boto3_client w ''s3''))
       (\<lambda>client.
     let filename = ''spotify_raw_'' @ str_datetime (now w) @ ''.json'' in
     and_then (local_step (json_dumps spotify_data))
       (\<lambda>body.
     invoke (CallPutObject client ''spotifyv'' (''raw-data/to_processed/'' @ filename) body)
            (put_object w client ''spotifyv'' (''raw-data/to_processed/'' @ filename) body))))))))"

subsection \<open>Timestamp formats\<close>

definition is_digit :: "char \<Rightarrow> bool" where
  "is_digit c \<longleftrightarrow> c \<in> set ''0123456789''"

text \<open>\<open>matches_format p s\<close>: \<open>s\<close> has the shape \<open>p\<close>, where a letter of \<open>p\<close> stands for one
  decimal digit and any other character for itself.\<close>

definition is_letter :: "char \<Rightarrow> bool" where
  "is_letter c \<longleftrightarrow> c \<in> set ''YMDHSf''"

fun matches_format :: "string \<Rightarrow> string \<Rightarrow> bool" where
  "matches_format [] [] = True"
| "matches_format (p # ps) (c # cs) =
     ((if is_letter p then is_digit c else c = p) \<and> matches_format ps cs)"
| "matches_format ps cs = False"

subsection \<open>\<open>json.loads\<close>\<close>

text \<open>
  The decoder of the standard library, on ASCII text: whitespace, the scanner for strings
  (strict mode: a raw control character is an error; \<open>\uXXXX\<close> escapes, a high surrogate
  followed by an escaped low surrogate is joined into one code point), numbers, arrays
  and objects. \<open>None\<close> is a JSONDecodeError, or a number with a fraction or an exponent
  and the constants \<open>NaN\<close>, \<open>Infinity\<close> (floats, which are outside this model). The
  interpreter's recursion limit is not modelled.
\<close>

definition is_ws :: "char \<Rightarrow> bool" where
  "is_ws c \<longleftrightarrow> c = CHR '' '' \<or> c = CHR 0x09 \<or> c = CHR 0x0A \<or> c = CHR 0x0D"

definition skip_ws :: "string \<Rightarrow> string" where
  "skip_ws s = dropWhile is_ws s"

definition hex_val :: "char \<Rightarrow> nat option" where
  "hex_val c =
     (let n = (of_char c :: nat) in
      if 48 \<le> n \<and> n \<le> 57 then Some (n - 48)
      else if 97 \<le> n \<and> n \<le> 102 then Some (n - 87)
      else if 65 \<le> n \<and> n \<le> 70 then Some (n - 55)
      else None)"

text \<open>\<open>int(esc, 16)\<close> on four hexadecimal digits.\<close>

definition decode_hex4 :: "char \<Rightarrow> char \<Rightarrow> char \<Rightarrow> char \<Rightarrow> nat option" where
  "decode_hex4 a b c d =
     (case (hex_val a, hex_val b, hex_val c, hex_val d) of
        (Some p, Some q, Some r, Some s) \<Rightarrow> Some (4096 * p + 256 * q + 16 * r + s)
      | _ \<Rightarrow> None)"

text \<open>The table \<open>BACKSLASH\<close> of the decoder.\<close>

definition unescape :: "char \<Rightarrow> nat option" where
  "unescape e =
     (if e = dquote then Some 0x22
      else if e = bslash then Some 0x5C
      else if e = CHR ''/'' then Some 0x2F
      else if e = CHR ''b'' then Some 0x08
      else if e = CHR ''f'' then Some 0x0C
      else if e = CHR ''n'' then Some 0x0A
      else if e = CHR ''r'' then Some 0x0D
      else if e = CHR ''t'' then Some 0x09
      else None)"

definition cons_char :: "nat \<Rightarrow> (pystr \<times> string) option \<Rightarrow> (pystr \<times> string) option" where
  "cons_char x r = map_option (\<lambda>(s, rest). (x # s, rest)) r"

text \<open>\<open>scanstring\<close>, from the character after the opening quote; the result is the string
  and the text after the closing quote. The source joins a pair as
  \<open>0x10000 + (((uni - 0xd800) << 10) | (uni2 - 0xdc00))\<close>.\<close>

fun scanstring :: "string \<Rightarrow> (pystr \<times> string) option" where
  "scanstring [] = None"
| "scanstring (c # cs) =
     (if c = dquote then Some ([], cs)
      else if c = bslash then
        (case cs of
           [] \<Rightarrow> None
         | e # cs' \<Rightarrow>
             if e = CHR ''u'' then
               (case cs' of
                  a # b # c # d # r1 \<Rightarrow>
                    (case decode_hex4 a b c d of
                       None \<Rightarrow> None
                     | Some uni \<Rightarrow>
                         if 0xD800 \<le> uni \<and> uni \<le> 0xDBFF then
                           (case r1 of
                              b1 # u1 # r1' \<Rightarrow>
                                if b1 = bslash \<and> u1 = CHR ''u'' then
                                  (case r1' of
                                     a2 # b2 # c2 # d2 # r2 \<Rightarrow>
                                       (case decode_hex4 a2 b2 c2 d2 of
                                          None \<Rightarrow> None
                                        | Some uni2 \<Rightarrow>
                                            if 0xDC00 \<le> uni2 \<and> uni2 \<le> 0xDFFF
                                            then cons_char (0x10000 + ((uni - 0xD800) * 1024 + (uni2 - 0xDC00)))
                                                   (scanstring r2)
                                            else cons_char uni (scanstring r1))
                                   | _ \<Rightarrow> None)
                                else cons_char uni (scanstring r1)
                            | _ \<Rightarrow> cons_char uni (scanstring r1))
                         else cons_char uni (scanstring r1))
                | _ \<Rightarrow> None)
             else (case unescape e of
                     None \<Rightarrow> None
                   | Some x \<Rightarrow> cons_char x (scanstring cs')))
      else if (of_char c :: nat) < 0x20 then None
      else cons_char (of_char c) (scanstring cs))"

definition digit_val :: "char \<Rightarrow> nat" where
  "digit_val c = of_char c - 48"

text \<open>\<open>int(s)\<close> on a run of decimal digits.\<close>

definition int_of_digits :: "string \<Rightarrow> nat" where
  "int_of_digits s = foldl (\<lambda>a c. 10 * a + digit_val c) 0 s"

definition starts_digit :: "string \<Rightarrow> bool" where
  "starts_digit s = (case s of [] \<Rightarrow> False | c # cs \<Rightarrow> is_digit c)"

text \<open>Whether the text after the integer part continues the number, as the groups
  \<open>(\.\d+)?([eE][-+]?\d+)?\<close> of \<open>NUMBER_RE\<close> do: then the number is a float.\<close>

definition float_tail :: "string \<Rightarrow> bool" where
  "float_tail s =
     (case s of
        [] \<Rightarrow> False
      | c # cs \<Rightarrow>
          if c = CHR ''.'' then starts_digit cs
          else if c = CHR ''e'' \<or> c = CHR ''E'' then
            (case cs of
               [] \<Rightarrow> False
             | g # ds \<Rightarrow> if g = CHR ''+'' \<or> g = CHR ''-'' then starts_digit ds else is_digit g)
          else False)"

text \<open>What \<open>(?:0|[1-9]\d*)\<close> matches at the start of a text: a single \<open>0\<close>, or the
  digits up to the first character that is not one (nothing when no digit stands there).\<close>

definition int_part :: "string \<Rightarrow> string" where
  "int_part s =
     (case s of
        [] \<Rightarrow> []
      | c # cs \<Rightarrow> if c = CHR ''0'' then [c] else takeWhile is_digit s)"

text \<open>A number: an optional \<open>-\<close>, the integer part, then \<open>int(...)\<close> of the two, unless a
  fraction or an exponent follows.\<close>

definition scan_number :: "string \<Rightarrow> (pyval \<times> string) option" where
  "scan_number s =
     (let neg = (case s of [] \<Rightarrow> False | c # cs \<Rightarrow> c = CHR ''-'');
          s1 = (if neg then tl s else s);
          ds = int_part s1;
          rest = drop (length ds) s1
      in if ds = [] then None
         else if float_tail rest then None
         else Some (PyInt (if neg then - int (int_of_digits ds) else int (int_of_digits ds)), rest))"

text \<open>\<open>dict(pairs)\<close>: a later pair with a key already present replaces the value and keeps
  the key's place.\<close>

fun dict_set :: "(pystr \<times> pyval) list \<Rightarrow> pystr \<Rightarrow> pyval \<Rightarrow> (pystr \<times> pyval) list" where
  "dict_set [] k v = [(k, v)]"
| "dict_set (p # ps) k v = (if fst p = k then (k, v) # ps else p # dict_set ps k v)"

definition dict_of :: "(pystr \<times> pyval) list \<Rightarrow> (pystr \<times> pyval) list" where
  "dict_of pairs = foldl (\<lambda>d kv. dict_set d (fst kv) (snd kv)) [] pairs"

text \<open>
  \<open>scan_once\<close> with \<open>JSONArray\<close> and \<open>JSONObject\<close>. The first argument bounds the number of
  nested calls; \<open>json_loads\<close> starts it above the length of the text. \<open>scan_array\<close> starts at
  the first character of an element, \<open>scan_object\<close> at the opening quote of a key.
\<close>

fun scan_once :: "nat \<Rightarrow> string \<Rightarrow> (pyval \<times> string) option"
  and scan_array :: "nat \<Rightarrow> string \<Rightarrow> (pyval list \<times> string) option"
  and scan_object :: "nat \<Rightarrow> string \<Rightarrow> ((pystr \<times> pyval) list \<times> string) option"
where
  "scan_once 0 s = None"
| "scan_once (Suc n) s =
     (case s of
        [] \<Rightarrow> None
      | c # cs \<Rightarrow>
          if c = dquote then map_option (\<lambda>(x, r). (PyStr x, r)) (scanstring cs)
          else if c = CHR ''{'' then
            (case skip_ws cs of
               [] \<Rightarrow> None
             | c' # cs' \<Rightarrow>
                 if c' = CHR ''}'' then Some (PyDict [], cs')
                 else if c' = dquote
                 then map_option (\<lambda>(ps, r). (PyDict (dict_of ps), r)) (scan_object n (c' # cs'))
                 else None)
          else if c = CHR ''['' then
            (case skip_ws cs of
               [] \<Rightarrow> None
             | c' # cs' \<Rightarrow>
                 if c' = CHR '']'' then Some (PyList [], cs')
                 else map_option (\<lambda>(xs, r). (PyList xs, r)) (scan_array n (c' # cs')))
          else if take 4 s = ''null'' then Some (PyNone, drop 4 s)
          else if take 4 s = ''true'' then Some (PyBool True, drop 4 s)
          else if take 5 s = ''false'' then Some (PyBool False, drop 5 s)
          else scan_number s)"
| "scan_array 0 s = None"
| "scan_array (Suc n) s =
     (case scan_once n s of
        None \<Rightarrow> None
      | Some (v, r) \<Rightarrow>
          (case skip_ws r of
             [] \<Rightarrow> None
           | c # cs \<Rightarrow>
               if c = CHR '']'' then Some ([v], cs)
               else if c = CHR '','' then
                 map_option (\<lambda>(vs, r'). (v # vs, r')) (scan_array n (skip_ws cs))
               else None))"
| "scan_object 0 s = None"
| "scan_object (Suc n) s =
     (case s of
        [] \<Rightarrow> None
      | c # cs \<Rightarrow>
          if c \<noteq> dquote then None
          else
            (case scanstring cs of
               None \<Rightarrow> None
             | Some (k, r) \<Rightarrow>
                 (case skip_ws r of
                    [] \<Rightarrow> None
                  | c1 # r1 \<Rightarrow>
                      if c1 \<noteq> CHR '':'' then None
                      else
                        (case scan_once n (skip_ws r1) of
                           None \<Rightarrow> None
                         | Some (v, r2) \<Rightarrow>
                             (case skip_ws r2 of
                                [] \<Rightarrow> None
                              | c2 # r3 \<Rightarrow>
                                  if c2 = CHR ''}'' then Some ([(k, v)], r3)
                                  else if c2 = CHR '','' then
                                    map_option (\<lambda>(ps, r'). ((k, v) # ps, r'))
                                      (scan_object n (skip_ws r3))
                                  else None)))))"

text \<open>What can follow a value inside an array or an object, or at the end of the text.\<close>

definition value_end :: "string \<Rightarrow> bool" where
  "value_end s = (case s of [] \<Rightarrow> True | c # cs \<Rightarrow> c = CHR '','' \<or> c = CHR '']'' \<or> c = CHR ''}'')"

text \<open>\<open>json.loads(s)\<close>: leading whitespace, one value, trailing whitespace, end of text.\<close>

definition json_loads :: "string \<Rightarrow> pyval option" where
  "json_loads s =
     (case scan_once (Suc (length s)) (skip_ws s) of
        None \<Rightarrow> None
      | Some (v, r) \<Rightarrow> if skip_ws r = [] then Some v else None)"

text \<open>
  The values \<open>json.loads\<close> can build: no foreign object; code points in range; inside a
  string no high surrogate directly before a low surrogate (the decoder joins such a pair);
  distinct keys in a dictionary.
\<close>

definition high_surrogate :: "nat \<Rightarrow> bool" where
  "high_surrogate c \<longleftrightarrow> 0xD800 \<le> c \<and> c \<le> 0xDBFF"

definition low_surrogate :: "nat \<Rightarrow> bool" where
  "low_surrogate c \<longleftrightarrow> 0xDC00 \<le> c \<and> c \<le> 0xDFFF"

fun json_str :: "pystr \<Rightarrow> bool" where
  "json_str [] = True"
| "json_str (c # cs) =
     (c < 0x110000 \<and>
      \<not> (high_surrogate c \<and> (case cs of [] \<Rightarrow> False | c' # cs' \<Rightarrow> low_surrogate c')) \<and>
      json_str cs)"

fun json_value :: "pyval \<Rightarrow> bool" where
  "json_value PyObject = False"
| "json_value (PyStr s) = json_str s"
| "json_value (PyList xs) = list_all json_value xs"
| "json_value (PyDict kvs) =
     (list_all (\<lambda>kv. json_str (fst kv) \<and> json_value (snd kv)) kvs \<and> distinct (map fst kvs))"
| "json_value v = True"

section \<open>Example environments\<close>

text \<open>The example of the specification: credentials \<open>abc\<close> / \<open>xyz\<close> and a track listing
  \<open>{"items":[{"track":{"name":"Song A"}}]}\<close>.\<close>

definition py_str :: "string \<Rightarrow> pystr" where
  "py_str s = map of_char s"

definition example_tracks :: pyval where
  "example_tracks =
     PyDict [(py_str ''items'',
              PyList [PyDict [(py_str ''track'',
                               PyDict [(py_str ''name'', PyStr (py_str ''Song A''))])]])]"

definition example_environ :: "string \<Rightarrow> string option" where
  "example_environ k =
     (if k = ''client_id'' then Some ''abc''
      else if k = ''client_secret'' then Some ''xyz''
      else None)"

definition example_now :: datetime where
  "example_now =
     \<lparr>year = 2024, month = 1, day = 15, hour = 10, minute = 30, second = 45,
      microsecond = 123456\<rparr>"

definition example_world :: world where
  "example_world =
     \<lparr>environ = example_environ,
      now = example_now,
      SpotifyClientCredentials =
        (\<lambda>i s. if i = Some ''abc'' \<and> s = Some ''xyz'' then Inr (Manager 1)
               else Inl (Raised ''SpotifyOauthError'')),
      Spotify = (\<lambda>m. Inr (Spotify_client 2)),
      user_playlists = (\<lambda>sp u. Inr (PyDict [(py_str ''items'', PyList [])])),
      playlist_tracks =
        (\<lambda>sp p. if p = ''3OK8UdRoB6IfDEa1pNJTQE'' then Inr example_tracks
                else Inl (Raised ''SpotifyException'')),
      boto3_client = (\<lambda>n. Inr (S3_client 3)),
      put_object = (\<lambda>c b k v. Inr ())\<rparr>"

text \<open>The same environment without the two credentials.\<close>

definition no_credentials_world :: world where
  "no_credentials_world = example_world\<lparr>environ := (\<lambda>k. None)\<rparr>"

text \<open>The list-playlists request fails.\<close>

definition playlists_down_world :: world where
  "playlists_down_world =
     example_world\<lparr>user_playlists := (\<lambda>sp u. Inl (Raised ''SpotifyException''))\<rparr>"

text \<open>The storage write is refused.\<close>

definition put_denied_world :: world where
  "put_denied_world = example_world\<lparr>put_object := (\<lambda>c b k v. Inl (Raised ''ClientError''))\<rparr>"

text \<open>The API client hands back something \<open>json.dumps\<close> cannot serialize.\<close>

definition foreign_object_world :: world where
  "foreign_object_world = example_world\<lparr>playlist_tracks := (\<lambda>sp p. Inr (PyList [PyObject]))\<rparr>"

text \<open>A later invocation: another track listing, and a clock that reads the same local
  time again (a naive local time repeats when the clock is set back, as at the end of
  daylight saving time).\<close>

definition later_world :: world where
  "later_world =
     example_world\<lparr>playlist_tracks := (\<lambda>sp p. Inr (PyDict [(py_str ''items'', PyList [])]))\<rparr>"

text \<open>The clock reads a whole second.\<close>

definition whole_second_world :: world where
  "whole_second_world = example_world\<lparr>now := example_now\<lparr>microsecond := 0\<rparr>\<rparr>"

section \<open>The runs of the handler\<close>

lemma split_link:
  "py_split ''https://open.spotify.com/playlist/3OK8UdRoB6IfDEa1pNJTQE'' (CHR ''/'') =
     [''https:'', '''', ''open.spotify.com'', ''playlist'', ''3OK8UdRoB6IfDEa1pNJTQE'']"
  by simp

lemma playlist_url:
  "getitem (py_split ''https://open.spotify.com/playlist/3OK8UdRoB6IfDEa1pNJTQE'' (CHR ''/'')) (- 1) =
     Inr ''3OK8UdRoB6IfDEa1pNJTQE''"
  unfolding split_link by (simp add: getitem_def)

lemma and_then_invoke_Inl: "and_then (invoke c (Inl e)) f = ([(c, Some e)], Inl e)"
  by (simp add: and_then_def invoke_def outcome_def)

lemma and_then_invoke_Inr: "and_then (invoke c (Inr x)) f = ((c, None) # fst (f x), snd (f x))"
  by (simp add: and_then_def invoke_def outcome_def)

lemma and_then_local_Inl: "and_then (local_step (Inl e)) f = ([], Inl e)"
  by (simp add: and_then_def local_step_def)

lemma and_then_local_Inr: "and_then (local_step (Inr x)) f = f x"
  by (simp add: and_then_def local_step_def)

lemmas run_simps = and_then_invoke_Inl and_then_invoke_Inr and_then_local_Inl and_then_local_Inr

lemma handler_cases:
  "lambda_handler w event context =
    (let cid = environ w ''client_id''; cs = environ w ''client_secret'';
         e1 = CallSpotifyClientCredentials cid cs in
     case SpotifyClientCredentials w cid cs of
       Inl e \<Rightarrow> ([(e1, Some e)], Inl e)
     | Inr m \<Rightarrow>
    (case Spotify w m of
       Inl e \<Rightarrow> ([(e1, None), (CallSpotify m, Some e)], Inl e)
     | Inr sp \<Rightarrow>
    (case user_playlists w sp ''spotify'' of
       Inl e \<Rightarrow> ([(e1, None), (CallSpotify m, None), (CallUserPlaylists sp ''spotify'', Some e)], Inl e)
     | Inr pl \<Rightarrow>
    (case playlist_tracks w sp ''3OK8UdRoB6IfDEa1pNJTQE'' of
       Inl e \<Rightarrow> ([(e1, None), (CallSpotify m, None), (CallUserPlaylists sp ''spotify'', None),
                  (CallPlaylistTracks sp ''3OK8UdRoB6IfDEa1pNJTQE'', Some e)], Inl e)
     | Inr d \<Rightarrow>
    (case boto3_client w ''s3'' of
       Inl e \<Rightarrow> ([(e1, None), (CallSpotify m, None), (CallUserPlaylists sp ''spotify'', None),
                  (CallPlaylistTracks sp ''3OK8UdRoB6IfDEa1pNJTQE'', None),
                  (CallBoto3Client ''s3'', Some e)], Inl e)
     | Inr c \<Rightarrow>
    (case json_dumps d of
       Inl e \<Rightarrow> ([(e1, None), (CallSpotify m, None), (CallUserPlaylists sp ''spotify'', None),
                  (CallPlaylistTracks sp ''3OK8UdRoB6IfDEa1pNJTQE'', None),
                  (CallBoto3Client ''s3'', None)], Inl e)
     | Inr body \<Rightarrow>
       (let r = put_object w c ''spotifyv'' (''raw-data/to_processed/spotify_raw_'' @ str_datetime (now w) @ ''.json'') body in
        ([(e1, None), (CallSpotify m, None), (CallUserPlaylists sp ''spotify'', None),
                  (CallPlaylistTracks sp ''3OK8UdRoB6IfDEa1pNJTQE'', None),
                  (CallBoto3Client ''s3'', None),
                  (CallPutObject c ''spotifyv'' (''raw-data/to_processed/spotify_raw_'' @ str_datetime (now w) @ ''.json'') body, outcome r)], r))))))))"
proof -
  have k: "''raw-data/to_processed/'' @ ''spotify_raw_'' @ str_datetime (now w) @ ''.json'' =
           ''raw-data/to_processed/spotify_raw_'' @ str_datetime (now w) @ ''.json''"
    by simp
  show ?thesis
    unfolding lambda_handler_def Let_def playlist_url k
    apply (cases "SpotifyClientCredentials w (environ w ''client_id'') (environ w ''client_secret'')")
     apply (simp only: run_simps sum.case)
    subgoal for m
      apply (cases "Spotify w m")
       apply (simp only: run_simps sum.case fst_conv snd_conv)
      subgoal for sp
        apply (cases "user_playlists w sp ''spotify''")
         apply (simp only: run_simps sum.case fst_conv snd_conv)
        subgoal for pl
          apply (cases "playlist_tracks w sp ''3OK8UdRoB6IfDEa1pNJTQE''")
           apply (simp only: run_simps sum.case fst_conv snd_conv)
          subgoal for d
            apply (cases "boto3_client w ''s3''")
             apply (simp only: run_simps sum.case fst_conv snd_conv)
            subgoal for c
              apply (cases "json_dumps d")
               apply (simp only: run_simps sum.case fst_conv snd_conv)
              apply (simp only: run_simps sum.case fst_conv snd_conv)
              apply (simp add: invoke_def)
              done
            done
          done
        done
      done
    done
qed

lemma handler_runs [consumes 0, case_names credentials_fail client_fail playlists_fail tracks_fail boto3_fail dumps_fail put_fail put_ok]:
  obtains
    (credentials_fail) e where
      "SpotifyClientCredentials w (environ w ''client_id'') (environ w ''client_secret'') = Inl e"
      "lambda_handler w event context =
         ([(CallSpotifyClientCredentials (environ w ''client_id'') (environ w ''client_secret''), Some e)],
          Inl e)"
  | (client_fail) m e where
      "SpotifyClientCredentials w (environ w ''client_id'') (environ w ''client_secret'') = Inr m"
      "Spotify w m = Inl e"
      "lambda_handler w event context =
         ([(CallSpotifyClientCredentials (environ w ''client_id'') (environ w ''client_secret''), None),
           (CallSpotify m, Some e)],
          Inl e)"
  | (playlists_fail) m sp e where
      "SpotifyClientCredentials w (environ w ''client_id'') (environ w ''client_secret'') = Inr m"
      "Spotify w m = Inr sp"
      "user_playlists w sp ''spotify'' = Inl e"
      "lambda_handler w event context =
         ([(CallSpotifyClientCredentials (environ w ''client_id'') (environ w ''client_secret''), None),
           (CallSpotify m, None),
           (CallUserPlaylists sp ''spotify'', Some e)],
          Inl e)"
  | (tracks_fail) m sp pl e where
      "SpotifyClientCredentials w (environ w ''client_id'') (environ w ''client_secret'') = Inr m"
      "Spotify w m = Inr sp"
      "user_playlists w sp ''spotify'' = Inr pl"
      "playlist_tracks w sp ''3OK8UdRoB6IfDEa1pNJTQE'' = Inl e"
      "lambda_handler w event context =
         ([(CallSpotifyClientCredentials (environ w ''client_id'') (environ w ''client_secret''), None),
           (CallSpotify m, None),
           (CallUserPlaylists sp ''spotify'', None),
           (CallPlaylistTracks sp ''3OK8UdRoB6IfDEa1pNJTQE'', Some e)],
          Inl e)"
  | (boto3_fail) m sp pl d e where
      "SpotifyClientCredentials w (environ w ''client_id'') (environ w ''client_secret'') = Inr m"
      "Spotify w m = Inr sp"
      "user_playlists w sp ''spotify'' = Inr pl"
      "playlist_tracks w sp ''3OK8UdRoB6IfDEa1pNJTQE'' = Inr d"
      "boto3_client w ''s3'' = Inl e"
      "lambda_handler w event context =
         ([(CallSpotifyClientCredentials (environ w ''client_id'') (environ w ''client_secret''), None),
           (CallSpotify m, None),
           (CallUserPlaylists sp ''spotify'', None),
           (CallPlaylistTracks sp ''3OK8UdRoB6IfDEa1pNJTQE'', None),
           (CallBoto3Client ''s3'', Some e)],
          Inl e)"
  | (dumps_fail) m sp pl d c e where
      "SpotifyClientCredentials w (environ w ''client_id'') (environ w ''client_secret'') = Inr m"
      "Spotify w m = Inr sp"
      "user_playlists w sp ''spotify'' = Inr pl"
      "playlist_tracks w sp ''3OK8UdRoB6IfDEa1pNJTQE'' = Inr d"
      "boto3_client w ''s3'' = Inr c"
      "json_dumps d = Inl e"
      "lambda_handler w event context =
         ([(CallSpotifyClientCredentials (environ w ''client_id'') (environ w ''client_secret''), None),
           (CallSpotify m, None),
           (CallUserPlaylists sp ''spotify'', None),
           (CallPlaylistTracks sp ''3OK8UdRoB6IfDEa1pNJTQE'', None),
           (CallBoto3Client ''s3'', None)],
          Inl e)"
  | (put_fail) m sp pl d c body e where
      "SpotifyClientCredentials w (environ w ''client_id'') (environ w ''client_secret'') = Inr m"
      "Spotify w m = Inr sp"
      "user_playlists w sp ''spotify'' = Inr pl"
      "playlist_tracks w sp ''3OK8UdRoB6IfDEa1pNJTQE'' = Inr d"
      "boto3_client w ''s3'' = Inr c"
      "json_dumps d = Inr body"
      "put_object w c ''spotifyv'' (''raw-data/to_processed/spotify_raw_'' @ str_datetime (now w) @ ''.json'') body = Inl e"
      "lambda_handler w event context =
         ([(CallSpotifyClientCredentials (environ w ''client_id'') (environ w ''client_secret''), None),
           (CallSpotify m, None),
           (CallUserPlaylists sp ''spotify'', None),
           (CallPlaylistTracks sp ''3OK8UdRoB6IfDEa1pNJTQE'', None),
           (CallBoto3Client ''s3'', None),
           (CallPutObject c ''spotifyv'' (''raw-data/to_processed/spotify_raw_'' @ str_datetime (now w) @ ''.json'') body, Some e)],
          Inl e)"
  | (put_ok) m sp pl d c body where
      "SpotifyClientCredentials w (environ w ''client_id'') (environ w ''client_secret'') = Inr m"
      "Spotify w m = Inr sp"
      "user_playlists w sp ''spotify'' = Inr pl"
      "playlist_tracks w sp ''3OK8UdRoB6IfDEa1pNJTQE'' = Inr d"
      "boto3_client w ''s3'' = Inr c"
      "json_dumps d = Inr body"
      "put_object w c ''spotifyv'' (''raw-data/to_processed/spotify_raw_'' @ str_datetime (now w) @ ''.json'') body = Inr ()"
      "lambda_handler w event context =
         ([(CallSpotifyClientCredentials (environ w ''client_id'') (environ w ''client_secret''), None),
           (CallSpotify m, None),
           (CallUserPlaylists sp ''spotify'', None),
           (CallPlaylistTracks sp ''3OK8UdRoB6IfDEa1pNJTQE'', None),
           (CallBoto3Client ''s3'', None),
           (CallPutObject c ''spotifyv'' (''raw-data/to_processed/spotify_raw_'' @ str_datetime (now w) @ ''.json'') body, None)],
          Inr ())"
proof (cases "SpotifyClientCredentials w (environ w ''client_id'') (environ w ''client_secret'')")
  case (Inl e)
  then show ?thesis using credentials_fail[of e] by (simp add: handler_cases)
next
  case m: (Inr m)
  show ?thesis
  proof (cases "Spotify w m")
    case (Inl e)
    then show ?thesis using m client_fail[of m e] by (simp add: handler_cases)
  next
    case sp: (Inr sp)
    show ?thesis
    proof (cases "user_playlists w sp ''spotify''")
      case (Inl e)
      then show ?thesis using m sp playlists_fail[of m sp e] by (simp add: handler_cases)
    next
      case pl: (Inr pl)
      show ?thesis
      proof (cases "playlist_tracks w sp ''3OK8UdRoB6IfDEa1pNJTQE''")
        case (Inl e)
        then show ?thesis using m sp pl tracks_fail[of m sp pl e] by (simp add: handler_cases)
      next
        case d: (Inr d)
        show ?thesis
        proof (cases "boto3_client w ''s3''")
          case (Inl e)
          then show ?thesis using m sp pl d boto3_fail[of m sp pl d e] by (simp add: handler_cases)
        next
          case c: (Inr c)
          show ?thesis
          proof (cases "json_dumps d")
            case (Inl e)
            then show ?thesis using m sp pl d c dumps_fail[of m sp pl d c e]
              by (simp add: handler_cases)
          next
            case body: (Inr body)
            show ?thesis
            proof (cases "put_object w c ''spotifyv'' (''raw-data/to_processed/spotify_raw_'' @ str_datetime (now w) @ ''.json'') body")
              case (Inl e)
              then show ?thesis using m sp pl d c body put_fail[of m sp pl d c body e]
                by (simp add: handler_cases outcome_def)
            next
              case (Inr u)
              then show ?thesis using m sp pl d c body put_ok[of m sp pl d c body]
                by (simp add: handler_cases outcome_def)
            qed
          qed
        qed
      qed
    qed
  qed
qed

lemma puts_simps:
  "puts [] = []"
  "puts ((CallPutObject c b k v, r) # t) = (b, k, v) # puts t"
  "puts ((CallSpotifyClientCredentials i s, r) # t) = puts t"
  "puts ((CallSpotify m, r) # t) = puts t"
  "puts ((CallUserPlaylists sp u, r) # t) = puts t"
  "puts ((CallPlaylistTracks sp p, r) # t) = puts t"
  "puts ((CallBoto3Client n, r) # t) = puts t"
  by (simp_all add: puts_def List.map_filter_simps)

lemma stored_simps:
  "stored [] = []"
  "stored ((c, Some e) # t) = stored t"
  "stored ((CallPutObject cl b k v, None) # t) = (b, k, v) # stored t"
  "stored ((CallSpotifyClientCredentials i s, r) # t) = stored t"
  "stored ((CallSpotify m, r) # t) = stored t"
  "stored ((CallUserPlaylists sp u, r) # t) = stored t"
  "stored ((CallPlaylistTracks sp p, r) # t) = stored t"
  "stored ((CallBoto3Client n, r) # t) = stored t"
  by (simp_all add: stored_def List.map_filter_simps)


subsection \<open>The handler without the list-playlists call, and the example runs\<close>

lemma variant_cases:
  "lambda_handler_without_playlists w event context =
    (let cid = environ w ''client_id''; cs = environ w ''client_secret'';
         e1 = CallSpotifyClientCredentials cid cs in
     case SpotifyClientCredentials w cid cs of
       Inl e \<Rightarrow> ([(e1, Some e)], Inl e)
     | Inr m \<Rightarrow>
    (case Spotify w m of
       Inl e \<Rightarrow> ([(e1, None), (CallSpotify m, Some e)], Inl e)
     | Inr sp \<Rightarrow>
    (case playlist_tracks w sp ''3OK8UdRoB6IfDEa1pNJTQE'' of
       Inl e \<Rightarrow> ([(e1, None), (CallSpotify m, None),
                  (CallPlaylistTracks sp ''3OK8UdRoB6IfDEa1pNJTQE'', Some e)], Inl e)
     | Inr d \<Rightarrow>
    (case boto3_client w ''s3'' of
       Inl e \<Rightarrow> ([(e1, None), (CallSpotify m, None),
                  (CallPlaylistTracks sp ''3OK8UdRoB6IfDEa1pNJTQE'', None),
                  (CallBoto3Client ''s3'', Some e)], Inl e)
     | Inr c \<Rightarrow>
    (case json_dumps d of
       Inl e \<Rightarrow> ([(e1, None), (CallSpotify m, None),
                  (CallPlaylistTracks sp ''3OK8UdRoB6IfDEa1pNJTQE'', None),
                  (CallBoto3Client ''s3'', None)], Inl e)
     | Inr body \<Rightarrow>
       (let r = put_object w c ''spotifyv''
                  (''raw-data/to_processed/spotify_raw_'' @ str_datetime (now w) @ ''.json'') body in
        ([(e1, None), (CallSpotify m, None),
                  (CallPlaylistTracks sp ''3OK8UdRoB6IfDEa1pNJTQE'', None),
                  (CallBoto3Client ''s3'', None),
                  (CallPutObject c ''spotifyv''
                     (''raw-data/to_processed/spotify_raw_'' @ str_datetime (now w) @ ''.json'') body,
                   outcome r)], r)))))))"
proof -
  have k: "''raw-data/to_processed/'' @ ''spotify_raw_'' @ str_datetime (now w) @ ''.json'' =
           ''raw-data/to_processed/spotify_raw_'' @ str_datetime (now w) @ ''.json''"
    by simp
  show ?thesis
    unfolding lambda_handler_without_playlists_def Let_def playlist_url k
    apply (cases "SpotifyClientCredentials w (environ w ''client_id'') (environ w ''client_secret'')")
     apply (simp only: run_simps sum.case)
    subgoal for m
      apply (cases "Spotify w m")
       apply (simp only: run_simps sum.case fst_conv snd_conv)
      subgoal for sp
        apply (cases "playlist_tracks w sp ''3OK8UdRoB6IfDEa1pNJTQE''")
         apply (simp only: run_simps sum.case fst_conv snd_conv)
        subgoal for d
          apply (cases "boto3_client w ''s3''")
           apply (simp only: run_simps sum.case fst_conv snd_conv)
          subgoal for c
            apply (cases "json_dumps d")
             apply (simp only: run_simps sum.case fst_conv snd_conv)
            apply (simp only: run_simps sum.case fst_conv snd_conv)
            apply (simp add: invoke_def)
            done
          done
        done
      done
    done
qed

lemma example_timestamp: "str_datetime example_now = ''2024-01-15 10:30:45.123456''"
  by (simp add: str_datetime_def example_now_def zfill_def decimal.simps digit_char_def)

lemma whole_second_timestamp:
  "str_datetime (example_now\<lparr>microsecond := 0\<rparr>) = ''2024-01-15 10:30:45''"
  by (simp add: str_datetime_def example_now_def zfill_def decimal.simps digit_char_def)

lemma example_tracks_dumps: "json_dumps example_tracks = Inr (encode example_tracks)"
  by (simp add: json_dumps_def example_tracks_def)

lemma example_run:
  "lambda_handler example_world ev ctx =
     ([(CallSpotifyClientCredentials (Some ''abc'') (Some ''xyz''), None),
       (CallSpotify (Manager 1), None),
       (CallUserPlaylists (Spotify_client 2) ''spotify'', None),
       (CallPlaylistTracks (Spotify_client 2) ''3OK8UdRoB6IfDEa1pNJTQE'', None),
       (CallBoto3Client ''s3'', None),
       (CallPutObject (S3_client 3) ''spotifyv''
          ''raw-data/to_processed/spotify_raw_2024-01-15 10:30:45.123456.json''
          (encode example_tracks), None)],
      Inr ())"
  by (simp add: handler_cases example_world_def example_environ_def example_tracks_dumps
      example_timestamp outcome_def)

lemma no_credentials_run:
  "lambda_handler no_credentials_world ev ctx =
     ([(CallSpotifyClientCredentials None None, Some (Raised ''SpotifyOauthError''))],
      Inl (Raised ''SpotifyOauthError''))"
  by (simp add: handler_cases no_credentials_world_def example_world_def)

lemma playlists_down_run:
  "lambda_handler playlists_down_world ev ctx =
     ([(CallSpotifyClientCredentials (Some ''abc'') (Some ''xyz''), None),
       (CallSpotify (Manager 1), None),
       (CallUserPlaylists (Spotify_client 2) ''spotify'', Some (Raised ''SpotifyException''))],
      Inl (Raised ''SpotifyException''))"
  by (simp add: handler_cases playlists_down_world_def example_world_def example_environ_def)

lemma playlists_down_variant_run:
  "lambda_handler_without_playlists playlists_down_world ev ctx =
     ([(CallSpotifyClientCredentials (Some ''abc'') (Some ''xyz''), None),
       (CallSpotify (Manager 1), None),
       (CallPlaylistTracks (Spotify_client 2) ''3OK8UdRoB6IfDEa1pNJTQE'', None),
       (CallBoto3Client ''s3'', None),
       (CallPutObject (S3_client 3) ''spotifyv''
          ''raw-data/to_processed/spotify_raw_2024-01-15 10:30:45.123456.json''
          (encode example_tracks), None)],
      Inr ())"
  by (simp add: variant_cases playlists_down_world_def example_world_def example_environ_def
      example_tracks_dumps example_timestamp outcome_def)

lemma example_variant_run:
  "lambda_handler_without_playlists example_world ev ctx =
     ([(CallSpotifyClientCredentials (Some ''abc'') (Some ''xyz''), None),
       (CallSpotify (Manager 1), None),
       (CallPlaylistTracks (Spotify_client 2) ''3OK8UdRoB6IfDEa1pNJTQE'', None),
       (CallBoto3Client ''s3'', None),
       (CallPutObject (S3_client 3) ''spotifyv''
          ''raw-data/to_processed/spotify_raw_2024-01-15 10:30:45.123456.json''
          (encode example_tracks), None)],
      Inr ())"
  by (simp add: variant_cases example_world_def example_environ_def
      example_tracks_dumps example_timestamp outcome_def)

lemma put_denied_run:
  "lambda_handler put_denied_world ev ctx =
     ([(CallSpotifyClientCredentials (Some ''abc'') (Some ''xyz''), None),
       (CallSpotify (Manager 1), None),
       (CallUserPlaylists (Spotify_client 2) ''spotify'', None),
       (CallPlaylistTracks (Spotify_client 2) ''3OK8UdRoB6IfDEa1pNJTQE'', None),
       (CallBoto3Client ''s3'', None),
       (CallPutObject (S3_client 3) ''spotifyv''
          ''raw-data/to_processed/spotify_raw_2024-01-15 10:30:45.123456.json''
          (encode example_tracks), Some (Raised ''ClientError''))],
      Inl (Raised ''ClientError''))"
  by (simp add: handler_cases put_denied_world_def example_world_def example_environ_def
      example_tracks_dumps example_timestamp outcome_def)

lemma foreign_object_run:
  "lambda_handler foreign_object_world ev ctx =
     ([(CallSpotifyClientCredentials (Some ''abc'') (Some ''xyz''), None),
       (CallSpotify (Manager 1), None),
       (CallUserPlaylists (Spotify_client 2) ''spotify'', None),
       (CallPlaylistTracks (Spotify_client 2) ''3OK8UdRoB6IfDEa1pNJTQE'', None),
       (CallBoto3Client ''s3'', None)],
      Inl (Raised ''TypeError''))"
  by (simp add: handler_cases foreign_object_world_def example_world_def example_environ_def
      json_dumps_def)

lemma later_run:
  "lambda_handler later_world ev ctx =
     ([(CallSpotifyClientCredentials (Some ''abc'') (Some ''xyz''), None),
       (CallSpotify (Manager 1), None),
       (CallUserPlaylists (Spotify_client 2) ''spotify'', None),
       (CallPlaylistTracks (Spotify_client 2) ''3OK8UdRoB6IfDEa1pNJTQE'', None),
       (CallBoto3Client ''s3'', None),
       (CallPutObject (S3_client 3) ''spotifyv''
          ''raw-data/to_processed/spotify_raw_2024-01-15 10:30:45.123456.json''
          (encode (PyDict [(py_str ''items'', PyList [])])), None)],
      Inr ())"
  by (simp add: handler_cases later_world_def example_world_def example_environ_def
      json_dumps_def example_timestamp outcome_def)

lemma whole_second_run:
  "lambda_handler whole_second_world ev ctx =
     ([(CallSpotifyClientCredentials (Some ''abc'') (Some ''xyz''), None),
       (CallSpotify (Manager 1), None),
       (CallUserPlaylists (Spotify_client 2) ''spotify'', None),
       (CallPlaylistTracks (Spotify_client 2) ''3OK8UdRoB6IfDEa1pNJTQE'', None),
       (CallBoto3Client ''s3'', None),
       (CallPutObject (S3_client 3) ''spotifyv''
          ''raw-data/to_processed/spotify_raw_2024-01-15 10:30:45.json''
          (encode example_tracks), None)],
      Inr ())"
  by (simp add: handler_cases whole_second_world_def example_world_def example_environ_def
      example_tracks_dumps whole_second_timestamp outcome_def)

section \<open>Claims about the stored object\<close>

text \<open>
  Claim C1. A run that completes makes exactly one \<open>put_object\<close> call. Its bucket is
  \<open>spotifyv\<close>, its key is \<open>raw-data/to_processed/spotify_raw_\<close> followed by
  \<open>str(datetime.now())\<close> and \<open>.json\<close>, and its body is \<open>json.dumps\<close> of what
  \<open>playlist_tracks\<close> returned for the fixed playlist. That call returned normally, so the
  object it names is the one stored object of the run.
\<close>

theorem successful_run_writes_one_object:
  assumes "snd (lambda_handler w ev ctx) = Inr u"
  shows "\<exists>sp d body.
           (CallPlaylistTracks sp ''3OK8UdRoB6IfDEa1pNJTQE'', None) \<in> set (fst (lambda_handler w ev ctx)) \<and>
           playlist_tracks w sp ''3OK8UdRoB6IfDEa1pNJTQE'' = Inr d \<and>
           json_dumps d = Inr body \<and>
           puts (fst (lambda_handler w ev ctx)) =
             [(''spotifyv'',
               ''raw-data/to_processed/spotify_raw_'' @ str_datetime (now w) @ ''.json'',
               body)] \<and>
           stored (fst (lambda_handler w ev ctx)) = puts (fst (lambda_handler w ev ctx))"
  using assms
  by (cases rule: handler_runs[of w ev ctx]) (simp_all add: puts_simps stored_simps)

theorem successful_run_writes_one_object_witness:
  "snd (lambda_handler example_world () ()) = Inr () \<and>
   puts (fst (lambda_handler example_world () ())) =
     [(''spotifyv'', ''raw-data/to_processed/spotify_raw_2024-01-15 10:30:45.123456.json'',
       encode example_tracks)]"
  using successful_run_writes_one_object[of example_world "()" "()" "()"]
  by (simp add: example_run puts_simps)

text \<open>
  Claim C2. Every run stores zero or one object: one when the run completes, none when it
  fails. At most one \<open>put_object\<close> call is made at all, each call made carries the whole
  serialization of the track listing (never a part of it), and a failed run either made
  no \<open>put_object\<close> call or failed in that very call, which then stored nothing.
\<close>

theorem zero_or_one_stored_object:
  "length (stored (fst (lambda_handler w ev ctx))) =
     (case snd (lambda_handler w ev ctx) of Inl e \<Rightarrow> 0 | Inr u \<Rightarrow> 1) \<and>
   length (puts (fst (lambda_handler w ev ctx))) \<le> 1 \<and>
   set (stored (fst (lambda_handler w ev ctx))) \<subseteq> set (puts (fst (lambda_handler w ev ctx))) \<and>
   (\<forall>obj \<in> set (puts (fst (lambda_handler w ev ctx))).
      \<exists>sp d. playlist_tracks w sp ''3OK8UdRoB6IfDEa1pNJTQE'' = Inr d \<and>
             json_dumps d = Inr (snd (snd obj))) \<and>
   (\<forall>e. snd (lambda_handler w ev ctx) = Inl e \<longrightarrow>
      puts (fst (lambda_handler w ev ctx)) = [] \<or>
      (\<exists>c b k v. last (fst (lambda_handler w ev ctx)) = (CallPutObject c b k v, Some e)))"
  by (cases rule: handler_runs[of w ev ctx]) (auto simp add: puts_simps stored_simps)

theorem zero_or_one_stored_object_witness:
  "length (stored (fst (lambda_handler example_world () ()))) = 1 \<and>
   length (stored (fst (lambda_handler put_denied_world () ()))) = 0 \<and>
   length (stored (fst (lambda_handler no_credentials_world () ()))) = 0 \<and>
   puts (fst (lambda_handler no_credentials_world () ())) = [] \<and>
   snd (lambda_handler put_denied_world () ()) = Inl (Raised ''ClientError'') \<and>
   (\<exists>c b k v. last (fst (lambda_handler put_denied_world () ())) =
      (CallPutObject c b k v, Some (Raised ''ClientError'')))"
  using zero_or_one_stored_object[of example_world "()" "()"]
    zero_or_one_stored_object[of put_denied_world "()" "()"]
    zero_or_one_stored_object[of no_credentials_world "()" "()"]
  by (simp add: example_run put_denied_run no_credentials_run puts_simps stored_simps)

section \<open>Claims about failures\<close>

text \<open>
  Claim C3. If the token exchange fails, the run ends with that error and no \<open>put_object\<close>
  call is made. In the source the exchange is the construction of the credentials manager
  from the two environment values and of the client that uses it; the library may put the
  request off until the first API call. Whichever of these three calls raises, nothing is
  written.
\<close>

theorem failed_token_exchange_writes_nothing:
  assumes "SpotifyClientCredentials w (environ w ''client_id'') (environ w ''client_secret'') = Inl e \<or>
           (\<exists>m. SpotifyClientCredentials w (environ w ''client_id'') (environ w ''client_secret'') = Inr m \<and>
                (Spotify w m = Inl e \<or>
                 (\<exists>sp. Spotify w m = Inr sp \<and> user_playlists w sp ''spotify'' = Inl e)))"
  shows "snd (lambda_handler w ev ctx) = Inl e \<and>
         puts (fst (lambda_handler w ev ctx)) = [] \<and>
         stored (fst (lambda_handler w ev ctx)) = []"
  using assms
  by (cases rule: handler_runs[of w ev ctx]) (auto simp add: puts_simps stored_simps)

theorem failed_token_exchange_writes_nothing_witness:
  "SpotifyClientCredentials no_credentials_world (environ no_credentials_world ''client_id'')
     (environ no_credentials_world ''client_secret'') = Inl (Raised ''SpotifyOauthError'') \<and>
   snd (lambda_handler no_credentials_world () ()) = Inl (Raised ''SpotifyOauthError'') \<and>
   puts (fst (lambda_handler no_credentials_world () ())) = [] \<and>
   stored (fst (lambda_handler no_credentials_world () ())) = []"
proof -
  have h: "SpotifyClientCredentials no_credentials_world (environ no_credentials_world ''client_id'')
     (environ no_credentials_world ''client_secret'') = Inl (Raised ''SpotifyOauthError'')"
    by (simp add: no_credentials_world_def example_world_def)
  show ?thesis
    using h failed_token_exchange_writes_nothing[of no_credentials_world "Raised ''SpotifyOauthError''" "()" "()"]
    by simp
qed

section \<open>Claims about the calls\<close>

text \<open>
  Claim C5. Splitting the fixed link on \<open>/\<close> gives five pieces, the last of which is
  \<open>3OK8UdRoB6IfDEa1pNJTQE\<close>; the index \<open>[-1]\<close> does not raise; and in every run, for
  every environment, event and context, a \<open>playlist_tracks\<close> call has that identifier as
  its argument.
\<close>

theorem playlist_id_is_constant:
  "py_split ''https://open.spotify.com/playlist/3OK8UdRoB6IfDEa1pNJTQE'' (CHR ''/'') =
     [''https:'', '''', ''open.spotify.com'', ''playlist'', ''3OK8UdRoB6IfDEa1pNJTQE''] \<and>
   getitem (py_split ''https://open.spotify.com/playlist/3OK8UdRoB6IfDEa1pNJTQE'' (CHR ''/'')) (- 1) =
     Inr ''3OK8UdRoB6IfDEa1pNJTQE'' \<and>
   (\<forall>sp p r. (CallPlaylistTracks sp p, r) \<in> set (fst (lambda_handler w ev ctx)) \<longrightarrow>
      p = ''3OK8UdRoB6IfDEa1pNJTQE'')"
proof -
  have "\<forall>sp p r. (CallPlaylistTracks sp p, r) \<in> set (fst (lambda_handler w ev ctx)) \<longrightarrow>
      p = ''3OK8UdRoB6IfDEa1pNJTQE''"
    by (cases rule: handler_runs[of w ev ctx]) simp_all
  then show ?thesis
    using split_link playlist_url by simp
qed

theorem playlist_id_is_constant_witness:
  "(CallPlaylistTracks (Spotify_client 2) ''3OK8UdRoB6IfDEa1pNJTQE'', None)
     \<in> set (fst (lambda_handler example_world () ())) \<and>
   (\<exists>sp p r. (CallPlaylistTracks sp p, r) \<in> set (fst (lambda_handler example_world () ())) \<and>
      p = ''3OK8UdRoB6IfDEa1pNJTQE'')"
  using playlist_id_is_constant[of example_world "()" "()"]
  by (simp add: example_run)

text \<open>
  Claim C6. A call that raises is the last call of the run, and the run's result is the
  very error the call raised; a failed run failed in its last call or in \<open>json.dumps\<close>
  (which makes no call). No call is made twice, so there is at most one \<open>put_object\<close>
  call: when it raises, the run fails with its error, it is the only write attempted, and
  nothing is stored.
\<close>

theorem failures_propagate_without_retry:
  "(\<forall>x \<in> set (butlast (fst (lambda_handler w ev ctx))). snd x = None) \<and>
   (\<forall>e. snd (last (fst (lambda_handler w ev ctx))) = Some e \<longrightarrow>
        snd (lambda_handler w ev ctx) = Inl e) \<and>
   (\<forall>e. snd (lambda_handler w ev ctx) = Inl e \<longrightarrow>
        snd (last (fst (lambda_handler w ev ctx))) = Some e \<or>
        (puts (fst (lambda_handler w ev ctx)) = [] \<and>
         (\<exists>sp d. playlist_tracks w sp ''3OK8UdRoB6IfDEa1pNJTQE'' = Inr d \<and> json_dumps d = Inl e))) \<and>
   distinct (map fst (fst (lambda_handler w ev ctx))) \<and>
   length (puts (fst (lambda_handler w ev ctx))) \<le> 1 \<and>
   (\<forall>c b k v e. (CallPutObject c b k v, Some e) \<in> set (fst (lambda_handler w ev ctx)) \<longrightarrow>
        put_object w c b k v = Inl e \<and>
        snd (lambda_handler w ev ctx) = Inl e \<and>
        puts (fst (lambda_handler w ev ctx)) = [(b, k, v)] \<and>
        stored (fst (lambda_handler w ev ctx)) = [])"
  by (cases rule: handler_runs[of w ev ctx]) (auto simp add: puts_simps stored_simps)

theorem failures_propagate_without_retry_witness:
  "(CallPutObject (S3_client 3) ''spotifyv''
      ''raw-data/to_processed/spotify_raw_2024-01-15 10:30:45.123456.json''
      (encode example_tracks), Some (Raised ''ClientError''))
     \<in> set (fst (lambda_handler put_denied_world () ())) \<and>
   put_object put_denied_world (S3_client 3) ''spotifyv''
      ''raw-data/to_processed/spotify_raw_2024-01-15 10:30:45.123456.json''
      (encode example_tracks) = Inl (Raised ''ClientError'') \<and>
   snd (lambda_handler put_denied_world () ()) = Inl (Raised ''ClientError'') \<and>
   length (puts (fst (lambda_handler put_denied_world () ()))) = 1 \<and>
   stored (fst (lambda_handler put_denied_world () ())) = [] \<and>
   snd (lambda_handler foreign_object_world () ()) = Inl (Raised ''TypeError'') \<and>
   puts (fst (lambda_handler foreign_object_world () ())) = []"
proof -
  have h: "put_object put_denied_world (S3_client 3) ''spotifyv''
      ''raw-data/to_processed/spotify_raw_2024-01-15 10:30:45.123456.json''
      (encode example_tracks) = Inl (Raised ''ClientError'')"
    by (simp add: put_denied_world_def)
  show ?thesis
    using h failures_propagate_without_retry[of put_denied_world "()" "()"]
      failures_propagate_without_retry[of foreign_object_world "()" "()"]
    by (simp add: put_denied_run foreign_object_run puts_simps stored_simps)
qed




section \<open>The unused list-playlists call\<close>

text \<open>
  Claim C9, as amended. The result of the list-playlists call is not used. In every
  environment where that call returns normally, the handler without it ends the same
  way, makes the same \<open>put_object\<close> call and stores the same object; its calls are the
  original's with the list-playlists call left out.
\<close>

theorem without_playlists_same_object:
  assumes "\<forall>m sp. SpotifyClientCredentials w (environ w ''client_id'') (environ w ''client_secret'') = Inr m \<longrightarrow>
             Spotify w m = Inr sp \<longrightarrow> (\<exists>pl. user_playlists w sp ''spotify'' = Inr pl)"
  shows "stored (fst (lambda_handler_without_playlists w ev ctx)) = stored (fst (lambda_handler w ev ctx)) \<and>
         puts (fst (lambda_handler_without_playlists w ev ctx)) = puts (fst (lambda_handler w ev ctx)) \<and>
         snd (lambda_handler_without_playlists w ev ctx) = snd (lambda_handler w ev ctx) \<and>
         fst (lambda_handler_without_playlists w ev ctx) =
           filter (\<lambda>x. \<forall>sp u. fst x \<noteq> CallUserPlaylists sp u) (fst (lambda_handler w ev ctx))"
  using assms
  by (cases rule: handler_runs[of w ev ctx])
     (simp_all add: variant_cases puts_simps stored_simps outcome_def)

theorem without_playlists_same_object_witness:
  "user_playlists example_world (Spotify_client 2) ''spotify'' =
     Inr (PyDict [(py_str ''items'', PyList [])]) \<and>
   stored (fst (lambda_handler_without_playlists example_world () ())) =
     [(''spotifyv'', ''raw-data/to_processed/spotify_raw_2024-01-15 10:30:45.123456.json'',
       encode example_tracks)] \<and>
   stored (fst (lambda_handler example_world () ())) =
     [(''spotifyv'', ''raw-data/to_processed/spotify_raw_2024-01-15 10:30:45.123456.json'',
       encode example_tracks)] \<and>
   snd (lambda_handler_without_playlists example_world () ()) = snd (lambda_handler example_world () ())"
proof -
  have h: "\<forall>m sp. SpotifyClientCredentials example_world (environ example_world ''client_id'')
              (environ example_world ''client_secret'') = Inr m \<longrightarrow>
            Spotify example_world m = Inr sp \<longrightarrow>
            (\<exists>pl. user_playlists example_world sp ''spotify'' = Inr pl)"
    by (simp add: example_world_def)
  have u: "user_playlists example_world (Spotify_client 2) ''spotify'' =
     Inr (PyDict [(py_str ''items'', PyList [])])"
    by (simp add: example_world_def)
  show ?thesis
    using u without_playlists_same_object[OF h, of "()" "()"]
    by (simp add: example_run example_variant_run stored_simps)
qed

text \<open>
  Claim C9 as stated, for every environment, fails: when the list-playlists call raises,
  the handler stops there and stores nothing, while the handler without the call goes on
  and stores the object.
\<close>

theorem without_playlists_counterexample:
  "stored (fst (lambda_handler playlists_down_world () ())) = [] \<and>
   stored (fst (lambda_handler_without_playlists playlists_down_world () ())) =
     [(''spotifyv'', ''raw-data/to_processed/spotify_raw_2024-01-15 10:30:45.123456.json'',
       encode example_tracks)]"
  by (simp add: playlists_down_run playlists_down_variant_run stored_simps)

section \<open>The timestamp\<close>

subsection \<open>Decimal fields\<close>

lemma below_ten_cases:
  "k < 10 \<Longrightarrow> k = 0 \<or> k = 1 \<or> k = 2 \<or> k = 3 \<or> k = 4 \<or> k = 5 \<or> k = 6 \<or> k = 7 \<or> k = 8 \<or> k = (9::nat)"
  by arith

lemma digit_char_is_digit: "is_digit (digit_char d)"
proof -
  have "d mod 10 < 10" by simp
  then have "''0123456789'' ! (d mod 10) \<in> set ''0123456789''"
    by (intro nth_mem) simp
  then show ?thesis by (simp only: is_digit_def digit_char_def)
qed

lemma digit_val_digit_char: "digit_val (digit_char d) = d mod 10"
proof -
  have "d mod 10 < 10" by simp
  from below_ten_cases[OF this] show ?thesis
    by (auto simp add: digit_val_def digit_char_def)
qed

lemma decimal_all_digits: "list_all is_digit (decimal n)"
proof (induction n rule: decimal.induct)
  case (1 n)
  show ?case
  proof (cases "n < 10")
    case True
    then show ?thesis by (simp add: decimal.simps[of n] digit_char_is_digit)
  next
    case False
    with 1 show ?thesis by (simp add: decimal.simps[of n] digit_char_is_digit)
  qed
qed

lemma int_of_digits_snoc: "int_of_digits (xs @ [c]) = 10 * int_of_digits xs + digit_val c"
  by (simp add: int_of_digits_def)

lemma int_of_digits_decimal: "int_of_digits (decimal n) = n"
proof (induction n rule: decimal.induct)
  case (1 n)
  show ?case
  proof (cases "n < 10")
    case True
    then show ?thesis
      by (simp add: decimal.simps[of n] int_of_digits_def digit_val_digit_char)
  next
    case False
    with 1 have "int_of_digits (decimal (n div 10)) = n div 10" by simp
    with False show ?thesis
      by (simp add: decimal.simps[of n] int_of_digits_snoc digit_val_digit_char)
  qed
qed

lemma decimal_not_empty: "decimal n \<noteq> []"
  by (subst decimal.simps) simp

lemma length_decimal: "n < 10 ^ k \<Longrightarrow> 0 < k \<Longrightarrow> length (decimal n) \<le> k"
proof (induction n arbitrary: k rule: decimal.induct)
  case (1 n)
  show ?case
  proof (cases "n < 10")
    case True
    with 1(3) show ?thesis by (simp add: decimal.simps[of n])
  next
    case False
    obtain j where k: "k = Suc j" using 1(3) by (cases k) auto
    have j: "0 < j"
    proof (rule ccontr)
      assume "\<not> 0 < j"
      then have "k = 1" using k by simp
      with 1(2) False show False by simp
    qed
    have "n div 10 < 10 ^ j" using 1(2) k by (simp add: less_mult_imp_div_less mult.commute)
    then have "length (decimal (n div 10)) \<le> j" using 1(1)[OF False _ j] by simp
    with False k show ?thesis by (simp add: decimal.simps[of n])
  qed
qed

lemma int_of_digits_zeros: "foldl (\<lambda>a c. 10 * a + digit_val c) 0 (replicate k (CHR ''0'')) = 0"
  by (induction k) (simp_all add: digit_val_def)

lemma int_of_digits_zfill: "int_of_digits (zfill w s) = int_of_digits s"
  by (simp add: zfill_def int_of_digits_def int_of_digits_zeros)

lemma length_field: "n < 10 ^ w \<Longrightarrow> 0 < w \<Longrightarrow> length (zfill w (decimal n)) = w"
  using length_decimal[of n w] by (simp add: zfill_def)

lemma field_all_digits: "list_all is_digit (zfill w (decimal n))"
proof -
  have "is_digit (CHR ''0'')" by (simp add: is_digit_def)
  then have "list_all is_digit (replicate (w - length (decimal n)) (CHR ''0''))"
    by (simp add: list_all_iff)
  then show ?thesis by (simp add: zfill_def decimal_all_digits)
qed

lemma field_inj: "zfill w (decimal n) = zfill w (decimal m) \<Longrightarrow> n = m"
proof -
  assume "zfill w (decimal n) = zfill w (decimal m)"
  then have "int_of_digits (zfill w (decimal n)) = int_of_digits (zfill w (decimal m))" by simp
  then show ?thesis by (simp add: int_of_digits_zfill int_of_digits_decimal)
qed

subsection \<open>The rendering of a time\<close>

lemma list_of_length_2: "length xs = 2 \<Longrightarrow> \<exists>a b. xs = [a, b]"
  by (cases xs; cases "tl xs") auto

lemma list_of_length_4: "length xs = 4 \<Longrightarrow> \<exists>a b c d. xs = [a, b, c, d]"
proof -
  assume "length xs = 4"
  then obtain a ys where xs: "xs = a # ys" and "length ys = 3" by (cases xs) auto
  then obtain b zs where ys: "ys = b # zs" and "length zs = 2" by (cases ys) auto
  with list_of_length_2[of zs] xs show ?thesis by auto
qed

lemma list_of_length_6: "length xs = 6 \<Longrightarrow> \<exists>a b c d e f. xs = [a, b, c, d, e, f]"
proof -
  assume "length xs = 6"
  then obtain a ys where xs: "xs = a # ys" and "length ys = 5" by (cases xs) auto
  then obtain b zs where ys: "ys = b # zs" and "length zs = 4" by (cases ys) auto
  with list_of_length_4[of zs] xs show ?thesis by auto
qed

lemma field2:
  assumes "n < 100"
  shows "\<exists>a b. zfill 2 (decimal n) = [a, b] \<and> is_digit a \<and> is_digit b"
proof -
  have "length (zfill 2 (decimal n)) = 2" using assms by (simp add: length_field)
  from list_of_length_2[OF this] obtain a b where f: "zfill 2 (decimal n) = [a, b]" by blast
  with field_all_digits[of 2 n] show ?thesis by simp
qed

lemma field4:
  assumes "n < 10000"
  shows "\<exists>a b c d. zfill 4 (decimal n) = [a, b, c, d] \<and>
           is_digit a \<and> is_digit b \<and> is_digit c \<and> is_digit d"
proof -
  have "length (zfill 4 (decimal n)) = 4" using assms by (simp add: length_field)
  from list_of_length_4[OF this] obtain a b c d where f: "zfill 4 (decimal n) = [a, b, c, d]"
    by blast
  with field_all_digits[of 4 n] show ?thesis by simp
qed

lemma field6:
  assumes "n < 1000000"
  shows "\<exists>a b c d e f. zfill 6 (decimal n) = [a, b, c, d, e, f] \<and>
           is_digit a \<and> is_digit b \<and> is_digit c \<and> is_digit d \<and> is_digit e \<and> is_digit f"
proof -
  have "length (zfill 6 (decimal n)) = 6" using assms by (simp add: length_field)
  from list_of_length_6[OF this] obtain a b c d e f
    where f: "zfill 6 (decimal n) = [a, b, c, d, e, f]" by blast
  with field_all_digits[of 6 n] show ?thesis by simp
qed

lemma digit_not_letter: "is_digit c \<Longrightarrow> c \<noteq> CHR ''T''"
  by (auto simp add: is_digit_def)

text \<open>The rendering of a valid time, character by character.\<close>

lemma str_datetime_chars:
  assumes "valid_datetime d"
  obtains y1 y2 y3 y4 m1 m2 d1 d2 h1 h2 n1 n2 s1 s2 where
    "is_digit y1" "is_digit y2" "is_digit y3" "is_digit y4"
    "is_digit m1" "is_digit m2" "is_digit d1" "is_digit d2"
    "is_digit h1" "is_digit h2" "is_digit n1" "is_digit n2"
    "is_digit s1" "is_digit s2"
    "str_datetime d =
       [y1, y2, y3, y4, CHR ''-'', m1, m2, CHR ''-'', d1, d2, CHR '' '',
        h1, h2, CHR '':'', n1, n2, CHR '':'', s1, s2] @
       (if microsecond d \<noteq> 0 then CHR ''.'' # zfill 6 (decimal (microsecond d)) else [])"
proof -
  from assms have b: "year d < 10000" "month d < 100" "day d < 100" "hour d < 100"
    "minute d < 100" "second d < 100"
    by (simp_all add: valid_datetime_def)
  from field4[OF b(1)] obtain y1 y2 y3 y4 where
    y: "zfill 4 (decimal (year d)) = [y1, y2, y3, y4]"
       "is_digit y1" "is_digit y2" "is_digit y3" "is_digit y4" by blast
  from field2[OF b(2)] obtain m1 m2 where
    m: "zfill 2 (decimal (month d)) = [m1, m2]" "is_digit m1" "is_digit m2" by blast
  from field2[OF b(3)] obtain d1 d2 where
    dd: "zfill 2 (decimal (day d)) = [d1, d2]" "is_digit d1" "is_digit d2" by blast
  from field2[OF b(4)] obtain h1 h2 where
    h: "zfill 2 (decimal (hour d)) = [h1, h2]" "is_digit h1" "is_digit h2" by blast
  from field2[OF b(5)] obtain n1 n2 where
    n: "zfill 2 (decimal (minute d)) = [n1, n2]" "is_digit n1" "is_digit n2" by blast
  from field2[OF b(6)] obtain s1 s2 where
    s: "zfill 2 (decimal (second d)) = [s1, s2]" "is_digit s1" "is_digit s2" by blast
  have e: "str_datetime d =
             [y1, y2, y3, y4, CHR ''-'', m1, m2, CHR ''-'', d1, d2, CHR '' '',
              h1, h2, CHR '':'', n1, n2, CHR '':'', s1, s2] @
             (if microsecond d \<noteq> 0 then CHR ''.'' # zfill 6 (decimal (microsecond d)) else [])"
    by (simp add: str_datetime_def y(1) m(1) dd(1) h(1) n(1) s(1))
  show thesis
    by (rule that[OF y(2) y(3) y(4) y(5) m(2) m(3) dd(2) dd(3) h(2) h(3) n(2) n(3) s(2) s(3) e])
qed

lemma timestamp_matches_format:
  assumes "valid_datetime d"
  shows "matches_format
           (if microsecond d = 0 then ''YYYY-MM-DD HH:MM:SS'' else ''YYYY-MM-DD HH:MM:SS.ffffff'')
           (str_datetime d)"
proof -
  obtain y1 y2 y3 y4 m1 m2 d1 d2 h1 h2 n1 n2 s1 s2 where
    c: "is_digit y1" "is_digit y2" "is_digit y3" "is_digit y4"
       "is_digit m1" "is_digit m2" "is_digit d1" "is_digit d2"
       "is_digit h1" "is_digit h2" "is_digit n1" "is_digit n2"
       "is_digit s1" "is_digit s2"
    and e: "str_datetime d =
             [y1, y2, y3, y4, CHR ''-'', m1, m2, CHR ''-'', d1, d2, CHR '' '',
              h1, h2, CHR '':'', n1, n2, CHR '':'', s1, s2] @
             (if microsecond d \<noteq> 0 then CHR ''.'' # zfill 6 (decimal (microsecond d)) else [])"
    by (rule str_datetime_chars[OF assms])
  show ?thesis
  proof (cases "microsecond d = 0")
    case True
    with c e show ?thesis by (simp add: is_letter_def)
  next
    case False
    from assms have "microsecond d < 1000000" by (simp add: valid_datetime_def)
    from field6[OF this] obtain f1 f2 f3 f4 f5 f6 where
      f: "zfill 6 (decimal (microsecond d)) = [f1, f2, f3, f4, f5, f6]"
         "is_digit f1" "is_digit f2" "is_digit f3" "is_digit f4" "is_digit f5" "is_digit f6"
      by blast
    with False c e show ?thesis by (simp add: is_letter_def)
  qed
qed

lemma timestamp_separators:
  assumes "valid_datetime d"
  shows "str_datetime d ! 10 = CHR '' '' \<and> str_datetime d ! 13 = CHR '':'' \<and>
         str_datetime d ! 16 = CHR '':'' \<and> CHR ''T'' \<notin> set (str_datetime d)"
proof -
  obtain y1 y2 y3 y4 m1 m2 d1 d2 h1 h2 n1 n2 s1 s2 where
    c: "is_digit y1" "is_digit y2" "is_digit y3" "is_digit y4"
       "is_digit m1" "is_digit m2" "is_digit d1" "is_digit d2"
       "is_digit h1" "is_digit h2" "is_digit n1" "is_digit n2"
       "is_digit s1" "is_digit s2"
    and e: "str_datetime d =
             [y1, y2, y3, y4, CHR ''-'', m1, m2, CHR ''-'', d1, d2, CHR '' '',
              h1, h2, CHR '':'', n1, n2, CHR '':'', s1, s2] @
             (if microsecond d \<noteq> 0 then CHR ''.'' # zfill 6 (decimal (microsecond d)) else [])"
    by (rule str_datetime_chars[OF assms])
  have t: "CHR ''T'' \<notin> set (zfill 6 (decimal (microsecond d)))"
    using field_all_digits[of 6 "microsecond d"] digit_not_letter
    by (auto simp add: list_all_iff)
  have n: "CHR ''T'' \<noteq> y1" "CHR ''T'' \<noteq> y2" "CHR ''T'' \<noteq> y3" "CHR ''T'' \<noteq> y4"
       "CHR ''T'' \<noteq> m1" "CHR ''T'' \<noteq> m2" "CHR ''T'' \<noteq> d1" "CHR ''T'' \<noteq> d2"
       "CHR ''T'' \<noteq> h1" "CHR ''T'' \<noteq> h2" "CHR ''T'' \<noteq> n1" "CHR ''T'' \<noteq> n2"
       "CHR ''T'' \<noteq> s1" "CHR ''T'' \<noteq> s2"
    using c digit_not_letter by blast+
  show ?thesis
    unfolding e using t n by simp
qed

lemma str_datetime_inj:
  assumes a: "valid_datetime a" and b: "valid_datetime b"
    and eq: "str_datetime a = str_datetime b"
  shows "a = b"
proof -
  from a have la: "length (zfill 4 (decimal (year a))) = 4"
    "length (zfill 2 (decimal (month a))) = 2" "length (zfill 2 (decimal (day a))) = 2"
    "length (zfill 2 (decimal (hour a))) = 2" "length (zfill 2 (decimal (minute a))) = 2"
    "length (zfill 2 (decimal (second a))) = 2"
    "length (zfill 6 (decimal (microsecond a))) = 6"
    by (simp_all add: valid_datetime_def length_field)
  from b have lb: "length (zfill 4 (decimal (year b))) = 4"
    "length (zfill 2 (decimal (month b))) = 2" "length (zfill 2 (decimal (day b))) = 2"
    "length (zfill 2 (decimal (hour b))) = 2" "length (zfill 2 (decimal (minute b))) = 2"
    "length (zfill 2 (decimal (second b))) = 2"
    "length (zfill 6 (decimal (microsecond b))) = 6"
    by (simp_all add: valid_datetime_def length_field)
  have len: "length (str_datetime a) = length (str_datetime b)" using eq by simp
  have us: "(microsecond a = 0) = (microsecond b = 0)"
    using len la lb by (simp add: str_datetime_def split: if_splits)
  have fields:
    "zfill 4 (decimal (year a)) = zfill 4 (decimal (year b)) \<and>
     zfill 2 (decimal (month a)) = zfill 2 (decimal (month b)) \<and>
     zfill 2 (decimal (day a)) = zfill 2 (decimal (day b)) \<and>
     zfill 2 (decimal (hour a)) = zfill 2 (decimal (hour b)) \<and>
     zfill 2 (decimal (minute a)) = zfill 2 (decimal (minute b)) \<and>
     zfill 2 (decimal (second a)) = zfill 2 (decimal (second b)) \<and>
     (microsecond a \<noteq> 0 \<longrightarrow>
        zfill 6 (decimal (microsecond a)) = zfill 6 (decimal (microsecond b)))"
    using eq us la lb
    by (simp add: str_datetime_def append_eq_append_conv split: if_splits)
  then have "year a = year b" "month a = month b" "day a = day b" "hour a = hour b"
    "minute a = minute b" "second a = second b" "microsecond a = microsecond b"
    using us by (auto dest: field_inj)
  then show ?thesis by (cases a; cases b) simp
qed

lemma timestamp_has_space_and_colon:
  assumes "valid_datetime d"
  shows "CHR '' '' \<in> set (str_datetime d) \<and> CHR '':'' \<in> set (str_datetime d)"
proof -
  obtain y1 y2 y3 y4 m1 m2 d1 d2 h1 h2 n1 n2 s1 s2 where
    e: "str_datetime d =
             [y1, y2, y3, y4, CHR ''-'', m1, m2, CHR ''-'', d1, d2, CHR '' '',
              h1, h2, CHR '':'', n1, n2, CHR '':'', s1, s2] @
             (if microsecond d \<noteq> 0 then CHR ''.'' # zfill 6 (decimal (microsecond d)) else [])"
    by (rule str_datetime_chars[OF assms])
  show ?thesis unfolding e by simp
qed

lemma successful_puts:
  assumes "snd (lambda_handler w ev ctx) = Inr u"
  shows "\<exists>body. puts (fst (lambda_handler w ev ctx)) =
           [(''spotifyv'',
             ''raw-data/to_processed/spotify_raw_'' @ str_datetime (now w) @ ''.json'', body)]"
  using assms
  by (cases rule: handler_runs[of w ev ctx]) (simp_all add: puts_simps)

lemma valid_example_now: "valid_datetime example_now"
  by (simp add: valid_datetime_def example_now_def)

lemma valid_whole_second: "valid_datetime (example_now\<lparr>microsecond := 0\<rparr>)"
  by (simp add: valid_datetime_def example_now_def)

lemma now_example_world: "now example_world = example_now"
  by (simp add: example_world_def)

lemma now_later_world: "now later_world = example_now"
  by (simp add: later_world_def example_world_def)

lemma now_whole_second_world: "now whole_second_world = example_now\<lparr>microsecond := 0\<rparr>"
  by (simp add: whole_second_world_def)

section \<open>Claims about the key\<close>

text \<open>
  Claim C10, as amended. In a run that completes, the key holds \<open>str(datetime.now())\<close>
  between \<open>spotify_raw_\<close> and \<open>.json\<close>. For a time Python can represent, that text has
  the form \<open>YYYY-MM-DD HH:MM:SS.ffffff\<close> when the microsecond field is not zero and the
  form \<open>YYYY-MM-DD HH:MM:SS\<close> when it is zero. Either way the date and the time are
  separated by a space, the time fields by colons, and no \<open>T\<close> occurs, so the key
  contains a space and colons. Two representable times render to the same text only when
  they are the same time: the timestamp tells invocations apart down to the microsecond
  and no further.
\<close>

theorem timestamp_in_key:
  assumes "valid_datetime (now w)" and "snd (lambda_handler w ev ctx) = Inr u"
  shows "(\<exists>body. puts (fst (lambda_handler w ev ctx)) =
            [(''spotifyv'',
              ''raw-data/to_processed/spotify_raw_'' @ str_datetime (now w) @ ''.json'', body)]) \<and>
         matches_format
           (if microsecond (now w) = 0 then ''YYYY-MM-DD HH:MM:SS''
            else ''YYYY-MM-DD HH:MM:SS.ffffff'')
           (str_datetime (now w)) \<and>
         str_datetime (now w) ! 10 = CHR '' '' \<and>
         str_datetime (now w) ! 13 = CHR '':'' \<and>
         str_datetime (now w) ! 16 = CHR '':'' \<and>
         CHR ''T'' \<notin> set (str_datetime (now w)) \<and>
         CHR '' '' \<in> set (''raw-data/to_processed/spotify_raw_'' @ str_datetime (now w) @ ''.json'') \<and>
         CHR '':'' \<in> set (''raw-data/to_processed/spotify_raw_'' @ str_datetime (now w) @ ''.json'') \<and>
         (\<forall>d. valid_datetime d \<longrightarrow> (str_datetime d = str_datetime (now w)) = (d = now w))"
proof -
  have inj: "\<forall>d. valid_datetime d \<longrightarrow> (str_datetime d = str_datetime (now w)) = (d = now w)"
    using str_datetime_inj[OF _ assms(1)] by auto
  show ?thesis
    using successful_puts[OF assms(2)] timestamp_matches_format[OF assms(1)]
      timestamp_separators[OF assms(1)] timestamp_has_space_and_colon[OF assms(1)] inj
    by simp
qed

theorem timestamp_in_key_witness:
  "valid_datetime (now example_world) \<and>
   snd (lambda_handler example_world () ()) = Inr () \<and>
   str_datetime (now example_world) = ''2024-01-15 10:30:45.123456'' \<and>
   matches_format ''YYYY-MM-DD HH:MM:SS.ffffff'' (str_datetime (now example_world)) \<and>
   CHR ''T'' \<notin> set (str_datetime (now example_world))"
proof -
  have v: "valid_datetime (now example_world)"
    by (simp add: now_example_world valid_example_now)
  have s: "snd (lambda_handler example_world () ()) = Inr ()"
    by (simp add: example_run)
  have m: "microsecond (now example_world) \<noteq> 0"
    by (simp add: now_example_world example_now_def)
  show ?thesis
    using v s m timestamp_in_key[OF v s]
    by (simp add: now_example_world example_timestamp is_letter_def is_digit_def)
qed

text \<open>
  Claim C10 as stated, for every invocation, fails when the clock reads a whole second:
  the fraction is left out and the timestamp has 19 characters, not the 26 of
  \<open>YYYY-MM-DD HH:MM:SS.ffffff\<close>.
\<close>

theorem whole_second_timestamp_counterexample:
  "valid_datetime (now whole_second_world) \<and>
   snd (lambda_handler whole_second_world () ()) = Inr () \<and>
   puts (fst (lambda_handler whole_second_world () ())) =
     [(''spotifyv'', ''raw-data/to_processed/spotify_raw_2024-01-15 10:30:45.json'',
       encode example_tracks)] \<and>
   str_datetime (now whole_second_world) = ''2024-01-15 10:30:45'' \<and>
   \<not> matches_format ''YYYY-MM-DD HH:MM:SS.ffffff'' (str_datetime (now whole_second_world))"
  by (simp add: now_whole_second_world valid_whole_second whole_second_run puts_simps
      whole_second_timestamp is_letter_def)

text \<open>
  Claim C8, as amended. Two runs that complete, with times Python can represent, write
  under the same key exactly when their clocks read the same time; so the two keys are
  distinct whenever the two readings of the clock differ.
\<close>

theorem keys_differ_iff_clocks_differ:
  assumes "valid_datetime (now w1)" and "valid_datetime (now w2)"
    and "snd (lambda_handler w1 ev1 ctx1) = Inr u1"
    and "snd (lambda_handler w2 ev2 ctx2) = Inr u2"
  shows "\<exists>k1 b1 k2 b2.
           puts (fst (lambda_handler w1 ev1 ctx1)) = [(''spotifyv'', k1, b1)] \<and>
           puts (fst (lambda_handler w2 ev2 ctx2)) = [(''spotifyv'', k2, b2)] \<and>
           (k1 = k2) = (now w1 = now w2)"
proof -
  from successful_puts[OF assms(3)] obtain b1 where
    p1: "puts (fst (lambda_handler w1 ev1 ctx1)) =
           [(''spotifyv'',
             ''raw-data/to_processed/spotify_raw_'' @ str_datetime (now w1) @ ''.json'', b1)]"
    by blast
  from successful_puts[OF assms(4)] obtain b2 where
    p2: "puts (fst (lambda_handler w2 ev2 ctx2)) =
           [(''spotifyv'',
             ''raw-data/to_processed/spotify_raw_'' @ str_datetime (now w2) @ ''.json'', b2)]"
    by blast
  have "(str_datetime (now w1) = str_datetime (now w2)) = (now w1 = now w2)"
    using str_datetime_inj[OF assms(1) assms(2)] by auto
  then have "(''raw-data/to_processed/spotify_raw_'' @ str_datetime (now w1) @ ''.json'' =
              ''raw-data/to_processed/spotify_raw_'' @ str_datetime (now w2) @ ''.json'') =
             (now w1 = now w2)"
    by simp
  with p1 p2 show ?thesis by blast
qed

theorem keys_differ_iff_clocks_differ_witness:
  "valid_datetime (now example_world) \<and> valid_datetime (now whole_second_world) \<and>
   snd (lambda_handler example_world () ()) = Inr () \<and>
   snd (lambda_handler whole_second_world () ()) = Inr () \<and>
   now example_world \<noteq> now whole_second_world \<and>
   map (\<lambda>obj. fst (snd obj)) (puts (fst (lambda_handler example_world () ()))) =
     [''raw-data/to_processed/spotify_raw_2024-01-15 10:30:45.123456.json''] \<and>
   map (\<lambda>obj. fst (snd obj)) (puts (fst (lambda_handler whole_second_world () ()))) =
     [''raw-data/to_processed/spotify_raw_2024-01-15 10:30:45.json'']"
proof -
  have v1: "valid_datetime (now example_world)"
    by (simp add: now_example_world valid_example_now)
  have v2: "valid_datetime (now whole_second_world)"
    by (simp add: now_whole_second_world valid_whole_second)
  have s1: "snd (lambda_handler example_world () ()) = Inr ()"
    by (simp add: example_run)
  have s2: "snd (lambda_handler whole_second_world () ()) = Inr ()"
    by (simp add: whole_second_run)
  have n: "now example_world \<noteq> now whole_second_world"
    by (simp add: now_example_world now_whole_second_world example_now_def)
  show ?thesis
    using v1 v2 s1 s2 n keys_differ_iff_clocks_differ[OF v1 v2 s1 s2]
    by (simp add: example_run whole_second_run puts_simps)
qed

text \<open>
  Claim C8 as stated, for any two invocations, fails when the second invocation's clock
  reads what the first one's read: both write under one key, and the second object
  replaces the first.
\<close>

theorem same_clock_same_key_counterexample:
  "snd (lambda_handler example_world () ()) = Inr () \<and>
   snd (lambda_handler later_world () ()) = Inr () \<and>
   puts (fst (lambda_handler example_world () ())) =
     [(''spotifyv'', ''raw-data/to_processed/spotify_raw_2024-01-15 10:30:45.123456.json'',
       encode example_tracks)] \<and>
   puts (fst (lambda_handler later_world () ())) =
     [(''spotifyv'', ''raw-data/to_processed/spotify_raw_2024-01-15 10:30:45.123456.json'',
       encode (PyDict [(py_str ''items'', PyList [])]))]"
  by (simp add: example_run later_run puts_simps)

section \<open>Decoding what was encoded\<close>

text \<open>
  \<open>json.loads\<close> undoes \<open>json.dumps\<close> on every value \<open>json.loads\<close> can build. The proof
  follows the encoder: one code point, a string, a number, then arrays and objects by
  induction on the value, with enough nested calls left at each step.
\<close>

declare scanstring.simps [simp del]

lemma below_sixteen_cases:
  "k < 16 \<Longrightarrow> k = 0 \<or> k = 1 \<or> k = 2 \<or> k = 3 \<or> k = 4 \<or> k = 5 \<or> k = 6 \<or> k = 7 \<or>
     k = 8 \<or> k = 9 \<or> k = 10 \<or> k = 11 \<or> k = 12 \<or> k = 13 \<or> k = 14 \<or> k = (15::nat)"
  by arith

lemma hex_val_hex_char: "hex_val (hex_char d) = Some (d mod 16)"
proof -
  have "d mod 16 < 16" by simp
  from below_sixteen_cases[OF this] show ?thesis
    by (auto simp add: hex_val_def hex_char_def)
qed

lemma hex_digits_value:
  "4096 * (n div 4096) + 256 * (n div 256 mod 16) + 16 * (n div 16 mod 16) + n mod 16 = (n::nat)"
proof -
  have e1: "n div 256 = n div 16 div 16" using div_mult2_eq[of n 16 16] by simp
  have e2: "n div 4096 = n div 256 div 16" using div_mult2_eq[of n 256 16] by simp
  have d1: "n = 16 * (n div 16) + n mod 16" by simp
  have d2: "n div 16 = 16 * (n div 16 div 16) + n div 16 mod 16" by simp
  have d3: "n div 256 = 16 * (n div 256 div 16) + n div 256 mod 16" by simp
  show ?thesis using e1 e2 d1 d2 d3 by linarith
qed

lemma decode_hex4_hex4:
  assumes "n < 65536"
  shows "decode_hex4 (hex_char (n div 4096)) (hex_char (n div 256)) (hex_char (n div 16)) (hex_char n)
         = Some n"
proof -
  have "n div 4096 mod 16 = n div 4096" using assms by simp
  then show ?thesis
    using hex_digits_value[of n]
    by (simp add: decode_hex4_def hex_val_hex_char)
qed

lemma quote_chars [simp]:
  "dquote \<noteq> bslash" "bslash \<noteq> dquote"
  "dquote \<noteq> CHR ''u''" "bslash \<noteq> CHR ''u''"
  by (simp_all add: dquote_def bslash_def)

lemma scanstring_dquote: "scanstring (dquote # cs) = Some ([], cs)"
  by (simp add: scanstring.simps)

lemma scanstring_simple:
  "e \<noteq> CHR ''u'' \<Longrightarrow> unescape e = Some x \<Longrightarrow>
   scanstring (bslash # e # cs) = cons_char x (scanstring cs)"
  by (simp add: scanstring.simps)

lemma scanstring_literal:
  "c \<noteq> dquote \<Longrightarrow> c \<noteq> bslash \<Longrightarrow> \<not> (of_char c :: nat) < 32 \<Longrightarrow>
   scanstring (c # cs) = cons_char (of_char c) (scanstring cs)"
  by (simp add: scanstring.simps)

lemma scanstring_u_plain:
  "decode_hex4 a b c d = Some uni \<Longrightarrow> \<not> high_surrogate uni \<Longrightarrow>
   scanstring (bslash # CHR ''u'' # a # b # c # d # r1) = cons_char uni (scanstring r1)"
  by (auto simp add: scanstring.simps(2)[of bslash] high_surrogate_def)

lemma scanstring_u_lone:
  "decode_hex4 a b c d = Some uni \<Longrightarrow> high_surrogate uni \<Longrightarrow>
   (\<forall>r. r1 \<noteq> bslash # CHR ''u'' # r) \<Longrightarrow>
   scanstring (bslash # CHR ''u'' # a # b # c # d # r1) = cons_char uni (scanstring r1)"
  by (auto simp add: scanstring.simps(2)[of bslash] high_surrogate_def split: list.splits)

lemma scanstring_u_not_low:
  "decode_hex4 a b c d = Some uni \<Longrightarrow> high_surrogate uni \<Longrightarrow>
   decode_hex4 a2 b2 c2 d2 = Some uni2 \<Longrightarrow> \<not> low_surrogate uni2 \<Longrightarrow>
   scanstring (bslash # CHR ''u'' # a # b # c # d # bslash # CHR ''u'' # a2 # b2 # c2 # d2 # r2) =
     cons_char uni (scanstring (bslash # CHR ''u'' # a2 # b2 # c2 # d2 # r2))"
  by (auto simp add: scanstring.simps(2)[of bslash "CHR ''u'' # a # b # c # d # bslash # CHR ''u'' # a2 # b2 # c2 # d2 # r2"]
      high_surrogate_def low_surrogate_def split: list.splits)

lemma scanstring_u_pair:
  "decode_hex4 a b c d = Some uni \<Longrightarrow> high_surrogate uni \<Longrightarrow>
   decode_hex4 a2 b2 c2 d2 = Some uni2 \<Longrightarrow> low_surrogate uni2 \<Longrightarrow>
   scanstring (bslash # CHR ''u'' # a # b # c # d # bslash # CHR ''u'' # a2 # b2 # c2 # d2 # r2) =
     cons_char (65536 + ((uni - 55296) * 1024 + (uni2 - 56320))) (scanstring r2)"
  by (auto simp add: scanstring.simps(2)[of bslash "CHR ''u'' # a # b # c # d # bslash # CHR ''u'' # a2 # b2 # c2 # d2 # r2"]
      high_surrogate_def low_surrogate_def split: list.splits)

lemma hex4_chars:
  "hex4 n = [hex_char (n div 4096), hex_char (n div 256), hex_char (n div 16), hex_char n]"
  by (simp add: hex4_def)

lemma char_of_printable:
  assumes "32 \<le> c" "c \<le> 126" "c \<noteq> 34" "c \<noteq> 92"
  shows "char_of (c::nat) \<noteq> dquote" "char_of c \<noteq> bslash" "(of_char (char_of c) :: nat) = c"
proof -
  have m: "c mod 256 = c" using assms by simp
  show "(of_char (char_of c) :: nat) = c" using m by simp
  show "char_of c \<noteq> dquote"
    using assms m by (simp add: char_of_eq_iff dquote_def take_bit_eq_mod)
  show "char_of c \<noteq> bslash"
    using assms m by (simp add: char_of_eq_iff bslash_def take_bit_eq_mod)
qed

lemma surrogate_pair_value:
  assumes "65536 \<le> c" "c < 1114112"
  shows "65536 + ((55296 + (c - 65536) div 1024 mod 1024 - 55296) * 1024 +
                  (56320 + (c - 65536) mod 1024 - 56320)) = (c::nat)"
proof -
  have "(c - 65536) div 1024 < 1024" using assms by simp
  then have "(c - 65536) div 1024 mod 1024 = (c - 65536) div 1024" by simp
  moreover have "(c - 65536) div 1024 * 1024 + (c - 65536) mod 1024 = c - 65536" by simp
  ultimately show ?thesis using assms by simp
qed

lemma escape_char_cases [consumes 1, case_names simple literal plain pair]:
  assumes "c < 1114112"
  obtains
    (simple) e where "escape_char c = [bslash, e]" "e \<noteq> CHR ''u''" "unescape e = Some c"
  | (literal) "escape_char c = [char_of c]" "char_of c \<noteq> dquote" "char_of c \<noteq> bslash"
      "(of_char (char_of c) :: nat) = c" "32 \<le> c"
  | (plain) "c < 65536" "escape_char c = bslash # CHR ''u'' # hex4 c"
  | (pair) s1 s2 where "65536 \<le> c"
      "escape_char c = bslash # CHR ''u'' # hex4 s1 @ bslash # CHR ''u'' # hex4 s2"
      "s1 < 65536" "s2 < 65536" "high_surrogate s1" "low_surrogate s2"
      "65536 + ((s1 - 55296) * 1024 + (s2 - 56320)) = c"
proof -
  consider "c = 34" | "c = 92" | "c = 8" | "c = 12" | "c = 10" | "c = 13" | "c = 9"
    | "32 \<le> c" "c \<le> 126" "c \<noteq> 34" "c \<noteq> 92"
    | "c \<notin> {34, 92, 8, 12, 10, 13, 9}" "\<not> (32 \<le> c \<and> c \<le> 126)" "c < 65536"
    | "65536 \<le> c"
    by fastforce
  then show thesis
  proof cases
    case 1 then show ?thesis
      using simple[of dquote] by (simp add: escape_char_def unescape_def)
  next
    case 2 then show ?thesis
      using simple[of bslash] by (simp add: escape_char_def unescape_def)
  next
    case 3 then show ?thesis
      using simple[of "CHR ''b''"] by (simp add: escape_char_def unescape_def dquote_def bslash_def)
  next
    case 4 then show ?thesis
      using simple[of "CHR ''f''"] by (simp add: escape_char_def unescape_def dquote_def bslash_def)
  next
    case 5 then show ?thesis
      using simple[of "CHR ''n''"] by (simp add: escape_char_def unescape_def dquote_def bslash_def)
  next
    case 6 then show ?thesis
      using simple[of "CHR ''r''"] by (simp add: escape_char_def unescape_def dquote_def bslash_def)
  next
    case 7 then show ?thesis
      using simple[of "CHR ''t''"] by (simp add: escape_char_def unescape_def dquote_def bslash_def)
  next
    case 8
    from char_of_printable[OF 8] 8 show ?thesis
      using literal by (simp add: escape_char_def)
  next
    case 9 then show ?thesis
      using plain by (auto simp add: escape_char_def)
  next
    case 10
    let ?n = "c - 65536"
    let ?s1 = "55296 + ?n div 1024 mod 1024"
    let ?s2 = "56320 + ?n mod 1024"
    have e: "escape_char c = bslash # CHR ''u'' # hex4 ?s1 @ bslash # CHR ''u'' # hex4 ?s2"
      using 10 by (simp add: escape_char_def Let_def)
    have b1: "?s1 < 65536" by simp
    have b2: "?s2 < 65536" by simp
    have h: "high_surrogate ?s1" by (simp add: high_surrogate_def)
    have l: "low_surrogate ?s2" by (simp add: low_surrogate_def)
    show ?thesis
      by (rule pair[OF 10 e b1 b2 h l surrogate_pair_value[OF 10 assms]])
  qed
qed

text \<open>What may follow an escaped high surrogate without being joined to it.\<close>

lemma scanstring_escape_char:
  assumes c: "c < 1114112"
    and look: "high_surrogate c \<Longrightarrow>
      (\<forall>r. X \<noteq> bslash # CHR ''u'' # r) \<or>
      (\<exists>a b c' d u r. X = bslash # CHR ''u'' # a # b # c' # d # r \<and>
         decode_hex4 a b c' d = Some u \<and> \<not> low_surrogate u)"
  shows "scanstring (escape_char c @ X) = cons_char c (scanstring X)"
  using c
proof (cases rule: escape_char_cases)
  case (simple e)
  then show ?thesis by (simp add: scanstring_simple)
next
  case literal
  then show ?thesis by (simp add: scanstring_literal)
next
  case plain
  note d = decode_hex4_hex4[OF plain(1)]
  show ?thesis
  proof (cases "high_surrogate c")
    case False
    with plain d show ?thesis by (simp add: hex4_chars scanstring_u_plain)
  next
    case True
    from look[OF True] show ?thesis
    proof
      assume "\<forall>r. X \<noteq> bslash # CHR ''u'' # r"
      with plain d True show ?thesis by (simp add: hex4_chars scanstring_u_lone)
    next
      assume "\<exists>a b c' d u r. X = bslash # CHR ''u'' # a # b # c' # d # r \<and>
         decode_hex4 a b c' d = Some u \<and> \<not> low_surrogate u"
      then obtain a b c' d' u r where
        X: "X = bslash # CHR ''u'' # a # b # c' # d' # r"
        and u: "decode_hex4 a b c' d' = Some u" "\<not> low_surrogate u" by blast
      show ?thesis
        unfolding plain(2) X hex4_chars
        using scanstring_u_not_low[OF d True u] by simp
    qed
  qed
next
  case (pair s1 s2)
  note d1 = decode_hex4_hex4[OF pair(3)]
  note d2 = decode_hex4_hex4[OF pair(4)]
  show ?thesis
    unfolding pair(2) hex4_chars
    using scanstring_u_pair[OF d1 pair(5) d2 pair(6)] pair(7) by simp
qed

lemma after_high_surrogate:
  assumes "json_str cs"
    and "\<not> (case cs of [] \<Rightarrow> False | c' # cs' \<Rightarrow> low_surrogate c')"
  shows "(\<forall>r. concat (map escape_char cs) @ dquote # rest \<noteq> bslash # CHR ''u'' # r) \<or>
      (\<exists>a b c' d u r. concat (map escape_char cs) @ dquote # rest =
           bslash # CHR ''u'' # a # b # c' # d # r \<and>
         decode_hex4 a b c' d = Some u \<and> \<not> low_surrogate u)"
proof (cases cs)
  case Nil
  then show ?thesis by simp
next
  case (Cons c' cs')
  with assms have c': "c' < 1114112" and nl: "\<not> low_surrogate c'" by simp_all
  from c' show ?thesis
  proof (cases rule: escape_char_cases)
    case (simple e)
    with Cons show ?thesis by simp
  next
    case literal
    with Cons show ?thesis by simp
  next
    case plain
    from decode_hex4_hex4[OF plain(1)] nl plain(2) Cons show ?thesis
      by (simp add: hex4_chars)
  next
    case (pair s1 s2)
    have "\<not> low_surrogate s1" using pair(5) by (simp add: high_surrogate_def low_surrogate_def)
    with decode_hex4_hex4[OF pair(3)] pair(2) Cons show ?thesis
      by (simp add: hex4_chars)
  qed
qed

lemma scanstring_escaped:
  "json_str s \<Longrightarrow> scanstring (concat (map escape_char s) @ dquote # rest) = Some (s, rest)"
proof (induction s)
  case Nil
  show ?case by (simp add: scanstring_dquote)
next
  case (Cons c cs)
  then have c: "c < 1114112" and cs: "json_str cs"
    and nl: "high_surrogate c \<Longrightarrow> \<not> (case cs of [] \<Rightarrow> False | c' # cs' \<Rightarrow> low_surrogate c')"
    by simp_all
  have "scanstring (escape_char c @ (concat (map escape_char cs) @ dquote # rest)) =
        cons_char c (scanstring (concat (map escape_char cs) @ dquote # rest))"
    by (rule scanstring_escape_char[OF c]) (rule after_high_surrogate[OF cs nl])
  with Cons.IH[OF cs] show ?case by (simp add: cons_char_def)
qed

lemma scanstring_encoded:
  "json_str s \<Longrightarrow> scanstring (tl (encode_basestring_ascii s) @ rest) = Some (s, rest)"
  using scanstring_escaped[of s rest] by (simp add: encode_basestring_ascii_def)

lemma digit_char_zero: "digit_char d = CHR ''0'' \<Longrightarrow> d mod 10 = 0"
proof -
  assume "digit_char d = CHR ''0''"
  then have "digit_val (digit_char d) = 0" by (simp add: digit_val_def)
  then show ?thesis by (simp only: digit_val_digit_char)
qed

lemma decimal_head:
  "\<exists>c cs. decimal n = c # cs \<and> is_digit c \<and> (0 < n \<longrightarrow> c \<noteq> CHR ''0'')"
proof (induction n rule: decimal.induct)
  case (1 n)
  show ?case
  proof (cases "n < 10")
    case True
    then have "0 < n \<longrightarrow> digit_char n \<noteq> CHR ''0''"
      using digit_char_zero[of n] by auto
    with True show ?thesis by (simp add: decimal.simps[of n] digit_char_is_digit)
  next
    case False
    from 1[OF False] obtain c cs where "decimal (n div 10) = c # cs" "is_digit c"
      "0 < n div 10 \<longrightarrow> c \<noteq> CHR ''0''" by (elim exE conjE)
    moreover have "0 < n div 10" using False by simp
    ultimately show ?thesis using False by (simp add: decimal.simps[of n])
  qed
qed

lemma decimal_zero: "decimal 0 = ''0''"
  by (simp add: decimal.simps[of 0] digit_char_def)

lemma takeWhile_decimal:
  "\<not> starts_digit rest \<Longrightarrow> takeWhile is_digit (decimal n @ rest) = decimal n"
proof -
  assume r: "\<not> starts_digit rest"
  have "takeWhile is_digit (decimal n @ rest) = decimal n @ takeWhile is_digit rest"
    using decimal_all_digits[of n] by (intro takeWhile_append2) (simp add: list_all_iff)
  moreover have "takeWhile is_digit rest = []"
    using r by (cases rest) (simp_all add: starts_digit_def)
  ultimately show ?thesis by simp
qed

lemma int_part_decimal:
  assumes "\<not> starts_digit rest"
  shows "int_part (decimal n @ rest) = decimal n"
proof (cases "n = 0")
  case True
  then show ?thesis by (simp add: decimal_zero int_part_def)
next
  case False
  from decimal_head[of n] False obtain c cs where
    d: "decimal n = c # cs" "c \<noteq> CHR ''0''" by auto
  have "takeWhile is_digit ((c # cs) @ rest) = c # cs"
    using takeWhile_decimal[OF assms, of n] d(1) by simp
  with d show ?thesis by (simp add: int_part_def)
qed

lemma value_end_number: "value_end rest \<Longrightarrow> \<not> starts_digit rest \<and> \<not> float_tail rest"
  by (cases rest) (auto simp add: value_end_def starts_digit_def float_tail_def is_digit_def)

lemma scan_number_repr:
  assumes "value_end rest"
  shows "scan_number (repr_int i @ rest) = Some (PyInt i, rest)"
proof -
  from value_end_number[OF assms] have r: "\<not> starts_digit rest" "\<not> float_tail rest" by simp_all
  show ?thesis
  proof (cases "i < 0")
    case True
    have s: "repr_int i @ rest = CHR ''-'' # decimal (nat (- i)) @ rest"
      using True by (simp add: repr_int_def)
    have v: "- int (int_of_digits (decimal (nat (- i)))) = i"
      using True by (simp add: int_of_digits_decimal)
    show ?thesis
      unfolding s scan_number_def
      using r v int_part_decimal[OF r(1), of "nat (- i)"] decimal_not_empty[of "nat (- i)"]
      by (simp add: Let_def)
  next
    case False
    from decimal_head[of "nat i"] obtain c cs where
      d: "decimal (nat i) = c # cs" "is_digit c" by blast
    have m: "c \<noteq> CHR ''-''" using d(2) by (auto simp add: is_digit_def)
    have s: "repr_int i @ rest = decimal (nat i) @ rest"
      using False by (simp add: repr_int_def)
    have v: "int (int_of_digits (decimal (nat i))) = i"
      using False by (simp add: int_of_digits_decimal)
    have neg: "(case decimal (nat i) @ rest of [] \<Rightarrow> False | c # cs \<Rightarrow> c = CHR ''-'') = False"
      using d(1) m by simp
    show ?thesis
      unfolding s scan_number_def neg
      using r v int_part_decimal[OF r(1), of "nat i"] decimal_not_empty[of "nat i"]
      by (simp add: Let_def)
  qed
qed

lemma repr_int_head: "\<exists>c cs. repr_int i = c # cs \<and> (is_digit c \<or> c = CHR ''-'')"
  using decimal_head[of "nat i"] by (auto simp add: repr_int_def)

lemma scan_once_number:
  "is_digit c \<or> c = CHR ''-'' \<Longrightarrow> scan_once (Suc n) (c # cs) = scan_number (c # cs)"
  by (auto simp add: is_digit_def dquote_def)

lemma scan_once_int:
  assumes "value_end rest"
  shows "scan_once (Suc n) (encode (PyInt i) @ rest) = Some (PyInt i, rest)"
proof -
  from repr_int_head[of i] obtain c cs where
    h: "repr_int i = c # cs" "is_digit c \<or> c = CHR ''-''" by blast
  have "scan_once (Suc n) ((c # cs) @ rest) = scan_number ((c # cs) @ rest)"
    using scan_once_number[OF h(2)] by simp
  with scan_number_repr[OF assms, of i] h(1) show ?thesis by simp
qed

lemma scan_once_none: "scan_once (Suc n) (encode PyNone @ rest) = Some (PyNone, rest)"
  by (simp add: dquote_def)

lemma scan_once_bool: "scan_once (Suc n) (encode (PyBool b) @ rest) = Some (PyBool b, rest)"
  by (simp add: dquote_def)

lemma scan_once_str:
  "json_str s \<Longrightarrow> scan_once (Suc n) (encode (PyStr s) @ rest) = Some (PyStr s, rest)"
  using scanstring_escaped[of s rest] by (simp add: encode_basestring_ascii_def)

lemma skip_ws_no_ws: "\<not> is_ws c \<Longrightarrow> skip_ws (c # cs) = c # cs"
  by (simp add: skip_ws_def)

lemma skip_ws_space: "skip_ws (CHR '' '' # s) = skip_ws s"
  by (simp add: skip_ws_def is_ws_def)

lemma skip_ws_nil: "skip_ws [] = []"
  by (simp add: skip_ws_def)

lemma punctuation_not_ws:
  "\<not> is_ws (CHR '','')" "\<not> is_ws (CHR '']'')" "\<not> is_ws (CHR ''}'')" "\<not> is_ws (CHR '':'')"
  "\<not> is_ws dquote"
  by (simp_all add: is_ws_def dquote_def)

lemma digit_not_ws: "is_digit c \<Longrightarrow> \<not> is_ws c \<and> c \<noteq> CHR '']'' \<and> c \<noteq> CHR ''}''"
  by (auto simp add: is_digit_def is_ws_def)

lemma encode_head:
  assumes "json_value v"
  shows "\<exists>c cs. encode v = c # cs \<and> \<not> is_ws c \<and> c \<noteq> CHR '']'' \<and> c \<noteq> CHR ''}''"
proof (cases v)
  case PyNone
  then show ?thesis by (simp add: is_ws_def)
next
  case (PyBool b)
  then show ?thesis by (simp add: is_ws_def)
next
  case (PyInt i)
  from repr_int_head[of i] obtain c cs where
    h: "repr_int i = c # cs" "is_digit c \<or> c = CHR ''-''" by (elim exE conjE)
  from h(2) have "\<not> is_ws c \<and> c \<noteq> CHR '']'' \<and> c \<noteq> CHR ''}''"
    using digit_not_ws[of c] by (auto simp add: is_ws_def)
  with h(1) PyInt show ?thesis by simp
next
  case (PyStr s)
  then show ?thesis by (simp add: encode_basestring_ascii_def is_ws_def dquote_def)
next
  case (PyList xs)
  then show ?thesis by (simp add: is_ws_def)
next
  case (PyDict kvs)
  then show ?thesis by (simp add: is_ws_def)
next
  case PyObject
  with assms show ?thesis by simp
qed

lemma skip_ws_encode:
  "json_value v \<Longrightarrow> skip_ws (CHR '' '' # encode v @ rest) = encode v @ rest"
  using encode_head[of v] by (auto simp add: skip_ws_space skip_ws_no_ws)

lemma skip_ws_value_end: "value_end r \<Longrightarrow> skip_ws r = r"
  by (cases r) (auto simp add: value_end_def skip_ws_nil skip_ws_no_ws punctuation_not_ws)

lemma dict_set_fresh: "k \<notin> fst ` set d \<Longrightarrow> dict_set d k v = d @ [(k, v)]"
  by (induction d) auto

lemma dict_of_acc:
  "distinct (map fst (d @ kvs)) \<Longrightarrow>
   foldl (\<lambda>d kv. dict_set d (fst kv) (snd kv)) d kvs = d @ kvs"
proof (induction kvs arbitrary: d)
  case Nil
  show ?case by simp
next
  case (Cons kv kvs)
  have f: "fst kv \<notin> fst ` set d" using Cons.prems by auto
  have "distinct (map fst ((d @ [kv]) @ kvs))" using Cons.prems by simp
  from Cons.IH[OF this] show ?case
    by (simp add: dict_set_fresh[OF f])
qed

lemma dict_of_distinct: "distinct (map fst kvs) \<Longrightarrow> dict_of kvs = kvs"
  using dict_of_acc[of "[]" kvs] by (simp add: dict_of_def)

lemma scan_array_items:
  assumes IH: "\<And>x n rest. x \<in> set xs \<Longrightarrow> size x < n \<Longrightarrow> value_end rest \<Longrightarrow>
                 scan_once n (encode x @ rest) = Some (x, rest)"
    and js: "\<forall>x \<in> set xs. json_value x"
    and ne: "xs \<noteq> []"
    and fuel: "size_list size xs < n"
  shows "scan_array n (join '', '' (map encode xs) @ CHR '']'' # rest) = Some (xs, rest)"
  using IH js ne fuel
proof (induction xs arbitrary: n)
  case Nil
  then show ?case by simp
next
  case (Cons x xs)
  from Cons.prems(4) obtain m where n: "n = Suc m" and m: "size x + size_list size xs < m"
    by (cases n) auto
  have sx: "size x < m" using m by simp
  show ?case
  proof (cases xs)
    case Nil
    have e: "value_end (CHR '']'' # rest)" by (simp add: value_end_def)
    have "scan_once m (encode x @ CHR '']'' # rest) = Some (x, CHR '']'' # rest)"
      by (rule Cons.prems(1)[OF _ sx e]) simp
    then show ?thesis
      using Nil n by (simp add: skip_ws_no_ws punctuation_not_ws)
  next
    case (Cons y ys)
    let ?tail = "join '', '' (map encode (y # ys)) @ CHR '']'' # rest"
    have e: "value_end (CHR '','' # CHR '' '' # ?tail)" by (simp add: value_end_def)
    have one: "scan_once m (encode x @ CHR '','' # CHR '' '' # ?tail) =
                 Some (x, CHR '','' # CHR '' '' # ?tail)"
      by (rule Cons.prems(1)[OF _ sx e]) simp
    have jy: "json_value y" using Cons.prems(2) Cons by simp
    have sk: "skip_ws (CHR '' '' # ?tail) = ?tail"
    proof (cases ys)
      case Nil
      then show ?thesis using skip_ws_encode[OF jy] by simp
    next
      case (Cons z zs)
      then show ?thesis using skip_ws_encode[OF jy] by simp
    qed
    have fuel': "size_list size xs < m" using m by simp
    have rest: "scan_array m ?tail = Some (xs, rest)"
      unfolding Cons[symmetric]
      using Cons.IH[OF Cons.prems(1) _ _ fuel'] Cons.prems(2) Cons by simp
    show ?thesis
      using Cons n one sk rest
      by (simp add: skip_ws_no_ws punctuation_not_ws)
  qed
qed

lemma entry_text:
  "encode_basestring_ascii k @ '': '' @ encode v @ r =
   dquote # concat (map escape_char k) @ dquote # CHR '':'' # CHR '' '' # encode v @ r"
  by (simp add: encode_basestring_ascii_def)

lemma scan_object_entry:
  assumes k: "json_str k" and v: "json_value v"
    and one: "scan_once m (encode v @ r) = Some (v, r)"
    and r: "value_end r"
  shows "scan_object (Suc m) (encode_basestring_ascii k @ '': '' @ encode v @ r) =
           (case r of
              [] \<Rightarrow> None
            | c2 # r3 \<Rightarrow>
                if c2 = CHR ''}'' then Some ([(k, v)], r3)
                else if c2 = CHR '','' then
                  map_option (\<lambda>(ps, r'). ((k, v) # ps, r')) (scan_object m (skip_ws r3))
                else None)"
proof -
  have s: "scanstring (concat (map escape_char k) @ dquote # CHR '':'' # CHR '' '' # encode v @ r) =
             Some (k, CHR '':'' # CHR '' '' # encode v @ r)"
    by (rule scanstring_escaped[OF k])
  show ?thesis
    unfolding entry_text
    using s one skip_ws_encode[OF v, of r] skip_ws_value_end[OF r]
    by (simp add: skip_ws_no_ws punctuation_not_ws)
qed

lemma skip_ws_entry:
  "skip_ws (CHR '' '' # encode_basestring_ascii k @ r) = encode_basestring_ascii k @ r"
  by (simp add: skip_ws_space skip_ws_no_ws punctuation_not_ws encode_basestring_ascii_def)

lemma scan_object_items:
  assumes IH: "\<And>kv n rest. kv \<in> set kvs \<Longrightarrow> size (snd kv) < n \<Longrightarrow> value_end rest \<Longrightarrow>
                 scan_once n (encode (snd kv) @ rest) = Some (snd kv, rest)"
    and js: "\<forall>kv \<in> set kvs. json_str (fst kv) \<and> json_value (snd kv)"
    and ne: "kvs \<noteq> []"
    and fuel: "size_list (size_prod (\<lambda>x. 0) size) kvs < n"
  shows "scan_object n
           (join '', '' (map (\<lambda>kv. encode_basestring_ascii (fst kv) @ '': '' @ encode (snd kv)) kvs)
            @ CHR ''}'' # rest) = Some (kvs, rest)"
  using IH js ne fuel
proof (induction kvs arbitrary: n)
  case Nil
  then show ?case by simp
next
  case (Cons kv kvs)
  note prems = Cons.prems
  note hyp = Cons.IH
  from prems(4) obtain m where n: "n = Suc m"
    and m: "size (snd kv) + size_list (size_prod (\<lambda>x. 0) size) kvs < m"
    by (cases n; cases kv) auto
  have sv: "size (snd kv) < m" using m by simp
  have k: "json_str (fst kv)" and v: "json_value (snd kv)" using prems(2) by simp_all
  show ?case
  proof (cases kvs)
    case Nil
    have e: "value_end (CHR ''}'' # rest)" by (simp add: value_end_def)
    have one: "scan_once m (encode (snd kv) @ CHR ''}'' # rest) = Some (snd kv, CHR ''}'' # rest)"
      by (rule prems(1)[OF _ sv e]) simp
    show ?thesis
      using Nil n scan_object_entry[OF k v one e] by simp
  next
    case (Cons kv' kvs')
    let ?entry = "\<lambda>kv. encode_basestring_ascii (fst kv) @ '': '' @ encode (snd kv)"
    let ?tail = "join '', '' (map ?entry (kv' # kvs')) @ CHR ''}'' # rest"
    have e: "value_end (CHR '','' # CHR '' '' # ?tail)" by (simp add: value_end_def)
    have one: "scan_once m (encode (snd kv) @ CHR '','' # CHR '' '' # ?tail) =
                 Some (snd kv, CHR '','' # CHR '' '' # ?tail)"
      by (rule prems(1)[OF _ sv e]) simp
    have sk: "skip_ws (CHR '' '' # ?tail) = ?tail"
    proof (cases kvs')
      case Nil
      then show ?thesis using skip_ws_entry[of "fst kv'"] by simp
    next
      case (Cons z zs)
      then show ?thesis using skip_ws_entry[of "fst kv'"] by simp
    qed
    have fuel': "size_list (size_prod (\<lambda>x. 0) size) kvs < m" using m by simp
    have rest: "scan_object m ?tail = Some (kvs, rest)"
      unfolding Cons[symmetric]
      using hyp[OF prems(1) _ _ fuel'] prems(2) Cons by simp
    show ?thesis
      using Cons n scan_object_entry[OF k v one e] sk rest by simp
  qed
qed

theorem scan_once_encode:
  "json_value v \<Longrightarrow> size v < n \<Longrightarrow> value_end rest \<Longrightarrow>
   scan_once n (encode v @ rest) = Some (v, rest)"
proof (induction v arbitrary: n rest)
  case PyNone
  then obtain m where "n = Suc m" by (cases n) auto
  then show ?case using scan_once_none[of m rest] by simp
next
  case (PyBool b)
  then obtain m where "n = Suc m" by (cases n) auto
  then show ?case using scan_once_bool[of m b rest] by simp
next
  case (PyInt i)
  then obtain m where "n = Suc m" by (cases n) auto
  then show ?case using scan_once_int[OF PyInt(3), of m i] by simp
next
  case (PyStr s)
  then obtain m where "n = Suc m" by (cases n) auto
  then show ?case using scan_once_str[of s m rest] PyStr(1) by simp
next
  case (PyList xs)
  from PyList(3) obtain m where n: "n = Suc m" and m: "size_list size xs < m"
    by (cases n) auto
  show ?case
  proof (cases xs)
    case Nil
    then show ?thesis using n by (simp add: dquote_def skip_ws_no_ws punctuation_not_ws)
  next
    case (Cons y ys)
    have js: "\<forall>x \<in> set xs. json_value x" using PyList(2) by (simp add: list_all_iff)
    have ne: "xs \<noteq> []" using Cons by simp
    have IH: "\<And>x n rest. x \<in> set xs \<Longrightarrow> size x < n \<Longrightarrow> value_end rest \<Longrightarrow>
                 scan_once n (encode x @ rest) = Some (x, rest)"
      using PyList(1) js by blast
    have items: "scan_array m (join '', '' (map encode xs) @ CHR '']'' # rest) = Some (xs, rest)"
      by (rule scan_array_items[OF IH js ne m])
    from encode_head[of y] js Cons obtain c cs where
      h: "encode y = c # cs" "\<not> is_ws c" "c \<noteq> CHR '']''" by auto
    have "\<exists>t. join '', '' (map encode xs) = c # t"
      using Cons h(1) by (cases ys) simp_all
    then obtain t where t: "join '', '' (map encode xs) = c # t" by (elim exE)
    show ?thesis
      using n items h(2) h(3) t by (simp add: dquote_def skip_ws_no_ws)
  qed
next
  case (PyDict kvs)
  from PyDict(3) obtain m where n: "n = Suc m"
    and m: "size_list (size_prod (\<lambda>x. 0) size) kvs < m"
    by (cases n) auto
  let ?entry = "\<lambda>kv. encode_basestring_ascii (fst kv) @ '': '' @ encode (snd kv)"
  show ?case
  proof (cases kvs)
    case Nil
    then show ?thesis using n by (simp add: dquote_def dict_of_def skip_ws_no_ws punctuation_not_ws)
  next
    case (Cons kv' kvs')
    have js: "\<forall>kv \<in> set kvs. json_str (fst kv) \<and> json_value (snd kv)"
      using PyDict(2) by (simp add: list_all_iff)
    have di: "distinct (map fst kvs)" using PyDict(2) by simp
    have ne: "kvs \<noteq> []" using Cons by simp
    have IH: "\<And>kv n rest. kv \<in> set kvs \<Longrightarrow> size (snd kv) < n \<Longrightarrow> value_end rest \<Longrightarrow>
                 scan_once n (encode (snd kv) @ rest) = Some (snd kv, rest)"
    proof -
      fix kv n rest
      assume a: "kv \<in> set kvs" "size (snd kv) < n" "value_end rest"
      have "snd kv \<in> Basic_BNFs.snds kv" by (cases kv) simp
      from PyDict(1)[OF a(1) this _ a(2) a(3)] js a(1)
      show "scan_once n (encode (snd kv) @ rest) = Some (snd kv, rest)" by simp
    qed
    have items: "scan_object m (join '', '' (map ?entry kvs) @ CHR ''}'' # rest) = Some (kvs, rest)"
      by (rule scan_object_items[OF IH js ne m])
    have "\<exists>t. join '', '' (map ?entry kvs) = dquote # t"
      using Cons by (cases kvs') (simp_all add: encode_basestring_ascii_def)
    then obtain t where t: "join '', '' (map ?entry kvs) = dquote # t" by (elim exE)
    have q: "dquote \<noteq> CHR ''}''" "dquote \<noteq> CHR ''{''" "CHR ''{'' \<noteq> dquote"
      by (simp_all add: dquote_def)
    show ?thesis
      using n items t q dict_of_distinct[OF di]
      by (simp add: skip_ws_no_ws punctuation_not_ws)
  qed
next
  case PyObject
  then show ?case by simp
qed

lemma size_list_le_join:
  "(\<forall>x \<in> set xs. size x \<le> length (encode x)) \<Longrightarrow>
   size_list size xs \<le> length (join '', '' (map encode xs)) + 1"
  by (induction xs rule: induct_list012) auto

lemma size_entries_le_join:
  "(\<forall>kv \<in> set kvs. size (snd kv) \<le> length (encode (snd kv))) \<Longrightarrow>
   size_list (size_prod (\<lambda>x. 0) size) kvs \<le>
     length (join '', ''
       (map (\<lambda>kv. encode_basestring_ascii (fst kv) @ '': '' @ encode (snd kv)) kvs)) + 1"
  by (induction kvs rule: induct_list012) (auto simp add: encode_basestring_ascii_def)

lemma size_le_length_encode: "size v \<le> length (encode v)"
proof (induction v)
  case (PyList xs)
  then have "\<forall>x \<in> set xs. size x \<le> length (encode x)" by simp
  from size_list_le_join[OF this] show ?case by simp
next
  case (PyDict kvs)
  have "\<forall>kv \<in> set kvs. size (snd kv) \<le> length (encode (snd kv))"
  proof
    fix kv assume a: "kv \<in> set kvs"
    have "snd kv \<in> Basic_BNFs.snds kv" by (cases kv) simp
    from PyDict[OF a this] show "size (snd kv) \<le> length (encode (snd kv))" .
  qed
  from size_entries_le_join[OF this] show ?case by simp
qed simp_all

theorem json_loads_encode: "json_value v \<Longrightarrow> json_loads (encode v) = Some v"
proof -
  assume v: "json_value v"
  from encode_head[OF v] obtain c cs where h: "encode v = c # cs" "\<not> is_ws c"
    by (elim exE conjE)
  have sk: "skip_ws (encode v) = encode v" using h by (simp add: skip_ws_no_ws)
  have fuel: "size v < Suc (length (encode v))" using size_le_length_encode[of v] by simp
  have e: "value_end []" by (simp add: value_end_def)
  from scan_once_encode[OF v fuel e]
  have "scan_once (Suc (length (encode v))) (encode v) = Some (v, [])" by simp
  then show ?thesis by (simp add: json_loads_def sk skip_ws_nil)
qed

lemma json_value_example_tracks: "json_value example_tracks"
  by (simp add: example_tracks_def py_str_def high_surrogate_def low_surrogate_def)

lemma json_value_serializable: "json_value v \<Longrightarrow> serializable v"
proof (induction v)
  case (PyList xs)
  then show ?case by (simp add: list_all_iff)
next
  case (PyDict kvs)
  have "\<forall>kv \<in> set kvs. serializable (snd kv)"
  proof
    fix kv assume a: "kv \<in> set kvs"
    have s: "snd kv \<in> Basic_BNFs.snds kv" by (cases kv) simp
    have "json_value (snd kv)" using PyDict.prems a by (simp add: list_all_iff)
    from PyDict.IH[OF a s this] show "serializable (snd kv)" .
  qed
  then show ?case by (simp add: list_all_iff)
qed simp_all


subsection \<open>What the decoder can return\<close>

text \<open>
  Conversely, whatever \<open>json.loads\<close> returns is a \<open>json_value\<close>: the condition of the round
  trip holds for every document the decoder builds.
\<close>

lemma hex_val_bound: "hex_val c = Some v \<Longrightarrow> v < 16"
  by (auto simp add: hex_val_def Let_def split: if_splits)

lemma decode_hex4_bound: "decode_hex4 a b c d = Some u \<Longrightarrow> u < 65536"
proof -
  assume "decode_hex4 a b c d = Some u"
  then obtain p q r s where h: "hex_val a = Some p" "hex_val b = Some q" "hex_val c = Some r"
    "hex_val d = Some s" and u: "u = 4096 * p + 256 * q + 16 * r + s"
    by (auto simp add: decode_hex4_def split: option.splits)
  from h have "p < 16" "q < 16" "r < 16" "s < 16" by (auto dest: hex_val_bound)
  with u show ?thesis by simp
qed

lemma unescape_bound: "unescape e = Some x \<Longrightarrow> x < 256"
  by (auto simp add: unescape_def split: if_splits)

lemma of_char_bound: "(of_char c :: nat) < 256"
proof -
  have "(of_char c :: nat) = of_char (char_of (of_char c :: nat))" by simp
  also have "\<dots> = (of_char c :: nat) mod 256" by (simp only: of_char_of)
  finally have "(of_char c :: nat) = of_char c mod 256" .
  then show ?thesis by (metis mod_less_divisor zero_less_numeral)
qed

lemma cons_char_Some:
  "cons_char u m = Some (x, r) \<Longrightarrow> \<exists>x'. x = u # x' \<and> m = Some (x', r)"
  by (cases m) (auto simp add: cons_char_def)

text \<open>The ways \<open>scanstring\<close> can return.\<close>

lemma scanstring_cases [consumes 1, case_names close literal simple lone pair]:
  assumes "scanstring s = Some (x, r)"
  obtains
    (close) "s = dquote # r" "x = []"
  | (literal) c cs x' where "s = c # cs" "c \<noteq> bslash" "x = of_char c # x'"
      "scanstring cs = Some (x', r)"
  | (simple) e cs u x' where "s = bslash # e # cs" "e \<noteq> CHR ''u''" "unescape e = Some u"
      "x = u # x'" "scanstring cs = Some (x', r)"
  | (lone) a b c d r1 uni x' where "s = bslash # CHR ''u'' # a # b # c # d # r1"
      "decode_hex4 a b c d = Some uni" "x = uni # x'" "scanstring r1 = Some (x', r)"
      "high_surrogate uni \<Longrightarrow>
         (\<forall>t. r1 \<noteq> bslash # CHR ''u'' # t) \<or>
         (\<exists>a2 b2 c2 d2 t uni2. r1 = bslash # CHR ''u'' # a2 # b2 # c2 # d2 # t \<and>
            decode_hex4 a2 b2 c2 d2 = Some uni2 \<and> \<not> low_surrogate uni2)"
  | (pair) a b c d a2 b2 c2 d2 r2 uni uni2 x' where
      "s = bslash # CHR ''u'' # a # b # c # d # bslash # CHR ''u'' # a2 # b2 # c2 # d2 # r2"
      "decode_hex4 a b c d = Some uni" "decode_hex4 a2 b2 c2 d2 = Some uni2"
      "high_surrogate uni" "low_surrogate uni2"
      "x = (65536 + ((uni - 55296) * 1024 + (uni2 - 56320))) # x'"
      "scanstring r2 = Some (x', r)"
proof (cases s)
  case Nil
  with assms show ?thesis by (simp add: scanstring.simps)
next
  case (Cons c cs)
  show ?thesis
  proof (cases "c = dquote")
    case True
    with assms Cons close show ?thesis by (simp add: scanstring.simps)
  next
    case nq: False
    show ?thesis
    proof (cases "c = bslash")
      case False
      with assms Cons nq literal[of c cs] show ?thesis
        by (auto simp add: scanstring.simps cons_char_def split: if_splits)
    next
      case True
      with assms Cons nq obtain e cs' where cs: "cs = e # cs'"
        by (cases cs) (auto simp add: scanstring.simps)
      show ?thesis
      proof (cases "e = CHR ''u''")
        case False
        with assms Cons nq True cs simple[of e cs'] show ?thesis
          by (auto simp add: scanstring.simps cons_char_def split: option.splits)
      next
        case u: True
        from assms Cons nq True cs u obtain a b c' d r1 where
          cs': "cs' = a # b # c' # d # r1"
          by (auto simp add: scanstring.simps split: list.splits)
        from assms Cons nq True cs u cs' obtain uni where
          d: "decode_hex4 a b c' d = Some uni"
          by (auto simp add: scanstring.simps split: option.splits)
        have s: "s = bslash # CHR ''u'' # a # b # c' # d # r1"
          using Cons True cs u cs' by simp
        show ?thesis
        proof (cases "high_surrogate uni")
          case False
          then have "scanstring s = cons_char uni (scanstring r1)"
            unfolding s using d
            by (auto simp add: scanstring.simps(2)[of bslash] high_surrogate_def)
          with assms False lone[OF s d] show ?thesis
            by (auto simp add: cons_char_def)
        next
          case h: True
          show ?thesis
          proof (cases "\<exists>t. r1 = bslash # CHR ''u'' # t")
            case False
            then have "scanstring s = cons_char uni (scanstring r1)"
              unfolding s using d h
              by (auto simp add: scanstring.simps(2)[of bslash] high_surrogate_def
                  split: list.splits)
            with assms False lone[OF s d] show ?thesis
              by (auto simp add: cons_char_def)
          next
            case True
            then obtain t where r1: "r1 = bslash # CHR ''u'' # t" by (elim exE)
            from assms obtain a2 b2 c2 d2 r2 where t: "t = a2 # b2 # c2 # d2 # r2"
              unfolding s r1 using d h
              by (auto simp add: scanstring.simps(2)[of bslash "CHR ''u'' # a # b # c' # d # bslash # CHR ''u'' # t"]
                  high_surrogate_def split: list.splits)
            from assms obtain uni2 where d2: "decode_hex4 a2 b2 c2 d2 = Some uni2"
              unfolding s r1 t using d h
              by (auto simp add: scanstring.simps(2)[of bslash "CHR ''u'' # a # b # c' # d # bslash # CHR ''u'' # a2 # b2 # c2 # d2 # r2"]
                  high_surrogate_def split: option.splits)
            have s2: "s = bslash # CHR ''u'' # a # b # c' # d # bslash # CHR ''u'' # a2 # b2 # c2 # d2 # r2"
              using s r1 t by simp
            show ?thesis
            proof (cases "low_surrogate uni2")
              case True
              have "scanstring s =
                      cons_char (65536 + ((uni - 55296) * 1024 + (uni2 - 56320))) (scanstring r2)"
                unfolding s2 using d d2 h True
                by (auto simp add: scanstring.simps(2)[of bslash "CHR ''u'' # a # b # c' # d # bslash # CHR ''u'' # a2 # b2 # c2 # d2 # r2"]
                    high_surrogate_def low_surrogate_def)
              with assms pair[OF s2 d d2 h True] show ?thesis
                by (auto simp add: cons_char_def)
            next
              case False
              have "scanstring s = cons_char uni (scanstring r1)"
                unfolding s2 r1 t using d d2 h False
                by (auto simp add: scanstring.simps(2)[of bslash "CHR ''u'' # a # b # c' # d # bslash # CHR ''u'' # a2 # b2 # c2 # d2 # r2"]
                    high_surrogate_def low_surrogate_def)
              with assms have "cons_char uni (scanstring r1) = Some (x, r)" by simp
              from cons_char_Some[OF this] obtain x' where
                x: "x = uni # x'" "scanstring r1 = Some (x', r)" by (elim exE conjE)
              have look: "(\<forall>t. r1 \<noteq> bslash # CHR ''u'' # t) \<or>
                (\<exists>a2 b2 c2 d2 t uni2. r1 = bslash # CHR ''u'' # a2 # b2 # c2 # d2 # t \<and>
                  decode_hex4 a2 b2 c2 d2 = Some uni2 \<and> \<not> low_surrogate uni2)"
                using r1 t d2 False by auto
              show ?thesis
                by (rule lone[OF s d x]) (rule look)
            qed
          qed
        qed
      qed
    qed
  qed
qed

lemma small_not_surrogate:
  "u < 256 \<Longrightarrow> u < 1114112 \<and> \<not> high_surrogate u \<and> \<not> low_surrogate u"
  by (simp add: high_surrogate_def low_surrogate_def)

lemma json_str_Cons_plain:
  "c < 1114112 \<Longrightarrow> \<not> high_surrogate c \<Longrightarrow> json_str cs \<Longrightarrow> json_str (c # cs)"
  by simp

lemma scanstring_json_str:
  "scanstring s = Some (x, r) \<Longrightarrow>
   json_str x \<and>
   (\<forall>c cs. x = c # cs \<longrightarrow> low_surrogate c \<longrightarrow>
      (\<exists>a b c' d t. s = bslash # CHR ''u'' # a # b # c' # d # t \<and> decode_hex4 a b c' d = Some c))"
proof (induction "length s" arbitrary: s x r rule: less_induct)
  case less
  from less.prems show ?case
  proof (cases rule: scanstring_cases)
    case close
    then show ?thesis by simp
  next
    case (literal c cs x')
    have "length cs < length s" using literal(1) by simp
    from less.hyps[OF this literal(4)] have j: "json_str x'" by simp
    from small_not_surrogate[OF of_char_bound[of c]] j literal(3) show ?thesis by simp
  next
    case (simple e cs u x')
    have "length cs < length s" using simple(1) by simp
    from less.hyps[OF this simple(5)] have j: "json_str x'" by simp
    from small_not_surrogate[OF unescape_bound[OF simple(3)]] j simple(4) show ?thesis by simp
  next
    case (lone a b c d r1 uni x')
    have len: "length r1 < length s" using lone(1) by simp
    note ih = less.hyps[OF len lone(4)]
    from ih have j: "json_str x'" by simp
    have b: "uni < 1114112" using decode_hex4_bound[OF lone(2)] by simp
    have nolow: "\<not> (high_surrogate uni \<and> (case x' of [] \<Rightarrow> False | c' # cs' \<Rightarrow> low_surrogate c'))"
    proof
      assume a: "high_surrogate uni \<and> (case x' of [] \<Rightarrow> False | c' # cs' \<Rightarrow> low_surrogate c')"
      then obtain c2 cs2 where x': "x' = c2 # cs2" and l: "low_surrogate c2"
        by (cases x') auto
      from ih x' l obtain a2 b2 c2' d2 t where
        r1: "r1 = bslash # CHR ''u'' # a2 # b2 # c2' # d2 # t"
        and d2: "decode_hex4 a2 b2 c2' d2 = Some c2" by auto
      from lone(5) a r1 d2 l show False by auto
    qed
    have "json_str (uni # x')" using b nolow j by simp
    with lone(1) lone(2) lone(3) show ?thesis by simp
  next
    case (pair a b c d a2 b2 c2 d2 r2 uni uni2 x')
    have len: "length r2 < length s" using pair(1) by simp
    from less.hyps[OF len pair(7)] have j: "json_str x'" by simp
    let ?c = "65536 + ((uni - 55296) * 1024 + (uni2 - 56320))"
    have u1: "uni - 55296 \<le> 1023" using pair(4) by (auto simp add: high_surrogate_def)
    have u2: "uni2 - 56320 \<le> 1023" using pair(5) by (auto simp add: low_surrogate_def)
    have "(uni - 55296) * 1024 \<le> 1023 * 1024" using u1 by (rule mult_le_mono1)
    with u2 have b: "?c < 1114112" by simp
    have nh: "\<not> high_surrogate ?c" by (simp add: high_surrogate_def)
    have nl: "\<not> low_surrogate ?c" by (simp add: low_surrogate_def)
    from b nh nl j pair(6) show ?thesis by simp
  qed
qed

lemma dict_set_keys: "fst ` set (dict_set d k v) = insert k (fst ` set d)"
  by (induction d) auto

lemma dict_set_distinct: "distinct (map fst d) \<Longrightarrow> distinct (map fst (dict_set d k v))"
proof (induction d)
  case Nil
  show ?case by simp
next
  case (Cons p d)
  then show ?case using dict_set_keys[of d k v] by (auto simp add: image_iff)
qed

lemma dict_set_members: "set (dict_set d k v) \<subseteq> insert (k, v) (set d)"
  by (induction d) auto

lemma dict_fold_invariant:
  "distinct (map fst d) \<Longrightarrow> (\<forall>kv \<in> set d. Q kv) \<Longrightarrow> (\<forall>kv \<in> set ps. Q kv) \<Longrightarrow>
   distinct (map fst (foldl (\<lambda>d kv. dict_set d (fst kv) (snd kv)) d ps)) \<and>
   (\<forall>kv \<in> set (foldl (\<lambda>d kv. dict_set d (fst kv) (snd kv)) d ps). Q kv)"
proof (induction ps arbitrary: d)
  case Nil
  then show ?case by simp
next
  case (Cons p ps)
  have d: "distinct (map fst (dict_set d (fst p) (snd p)))"
    by (rule dict_set_distinct[OF Cons.prems(1)])
  have q: "\<forall>kv \<in> set (dict_set d (fst p) (snd p)). Q kv"
    using dict_set_members[of d "fst p" "snd p"] Cons.prems(2) Cons.prems(3) by auto
  have r: "\<forall>kv \<in> set ps. Q kv" using Cons.prems(3) by simp
  from Cons.IH[OF d q r] show ?case by simp
qed

lemma dict_of_json:
  assumes "\<forall>kv \<in> set ps. json_str (fst kv) \<and> json_value (snd kv)"
  shows "json_value (PyDict (dict_of ps))"
  using dict_fold_invariant[of "[]" "\<lambda>kv. json_str (fst kv) \<and> json_value (snd kv)" ps] assms
  by (simp add: dict_of_def list_all_iff)

lemma scan_number_json: "scan_number s = Some (v, r) \<Longrightarrow> json_value v"
  by (auto simp add: scan_number_def Let_def split: if_splits)

lemma scan_once_step:
  assumes arr: "\<And>s vs r. scan_array n s = Some (vs, r) \<Longrightarrow> \<forall>v \<in> set vs. json_value v"
    and obj: "\<And>s ps r. scan_object n s = Some (ps, r) \<Longrightarrow>
                \<forall>kv \<in> set ps. json_str (fst kv) \<and> json_value (snd kv)"
    and res: "scan_once (Suc n) s = Some (v, r)"
  shows "json_value v"
proof (cases s)
  case Nil
  with res show ?thesis by simp
next
  case (Cons c cs)
  consider (str) "c = dquote" | (obj) "c \<noteq> dquote" "c = CHR ''{''"
    | (arr) "c \<noteq> dquote" "c \<noteq> CHR ''{''" "c = CHR ''[''"
    | (atom) "c \<noteq> dquote" "c \<noteq> CHR ''{''" "c \<noteq> CHR ''[''"
    by auto
  then show ?thesis
  proof cases
    case str
    with res Cons obtain x where "scanstring cs = Some (x, r)" "v = PyStr x"
      by (cases "scanstring cs") auto
    with scanstring_json_str[of cs x r] show ?thesis by simp
  next
    case obj
    show ?thesis
    proof (cases "skip_ws cs")
      case Nil
      with res Cons obj show ?thesis by simp
    next
      case inner: (Cons c' cs')
      show ?thesis
      proof (cases "c' = CHR ''}''")
        case True
        with res Cons obj inner show ?thesis by auto
      next
        case False
        with res Cons obj inner obtain ps where
          p: "scan_object n (c' # cs') = Some (ps, r)" "v = PyDict (dict_of ps)"
          by (cases "scan_object n (c' # cs')") (auto split: if_splits)
        from assms(2)[OF p(1)] show ?thesis
          unfolding p(2) by (rule dict_of_json)
      qed
    qed
  next
    case arr
    show ?thesis
    proof (cases "skip_ws cs")
      case Nil
      with res Cons arr show ?thesis by simp
    next
      case inner: (Cons c' cs')
      show ?thesis
      proof (cases "c' = CHR '']''")
        case True
        with res Cons arr inner show ?thesis by auto
      next
        case False
        with res Cons arr inner obtain xs where
          p: "scan_array n (c' # cs') = Some (xs, r)" "v = PyList xs"
          by (cases "scan_array n (c' # cs')") auto
        from assms(1)[OF p(1)] show ?thesis
          unfolding p(2) by (simp add: list_all_iff)
      qed
    qed
  next
    case atom
    with res Cons have
      "v = PyNone \<or> v = PyBool True \<or> v = PyBool False \<or> scan_number s = Some (v, r)"
      by (auto split: if_splits)
    then show ?thesis using scan_number_json[of s v r] by auto
  qed
qed

lemma scan_array_step:
  assumes one: "\<And>s v r. scan_once n s = Some (v, r) \<Longrightarrow> json_value v"
    and arr: "\<And>s vs r. scan_array n s = Some (vs, r) \<Longrightarrow> \<forall>v \<in> set vs. json_value v"
    and res: "scan_array (Suc n) s = Some (vs, r)"
  shows "\<forall>v \<in> set vs. json_value v"
proof -
  from res obtain v r1 where a: "scan_once n s = Some (v, r1)"
    by (cases "scan_once n s") auto
  from one[OF a] have jv: "json_value v" .
  from res a obtain c cs where b: "skip_ws r1 = c # cs"
    by (cases "skip_ws r1") auto
  show ?thesis
  proof (cases "c = CHR '']''")
    case True
    with res a b jv show ?thesis by auto
  next
    case False
    with res a b obtain ws where w: "scan_array n (skip_ws cs) = Some (ws, r)" "vs = v # ws"
      by (cases "scan_array n (skip_ws cs)") (auto split: if_splits)
    from arr[OF w(1)] jv w(2) show ?thesis by simp
  qed
qed

lemma scan_object_step:
  assumes one: "\<And>s v r. scan_once n s = Some (v, r) \<Longrightarrow> json_value v"
    and obj: "\<And>s ps r. scan_object n s = Some (ps, r) \<Longrightarrow>
                \<forall>kv \<in> set ps. json_str (fst kv) \<and> json_value (snd kv)"
    and res: "scan_object (Suc n) s = Some (ps, r)"
  shows "\<forall>kv \<in> set ps. json_str (fst kv) \<and> json_value (snd kv)"
proof -
  from res obtain c cs where s: "s = c # cs" by (cases s) auto
  from res s have q: "c = dquote" by (auto split: if_splits)
  from res s q obtain k r0 where k: "scanstring cs = Some (k, r0)"
    by (cases "scanstring cs") auto
  from scanstring_json_str[OF k] have jk: "json_str k" by simp
  from res s q k obtain c1 r1 where c1: "skip_ws r0 = c1 # r1"
    by (cases "skip_ws r0") auto
  from res s q k c1 have colon: "c1 = CHR '':''" by (auto split: if_splits)
  from res s q k c1 colon obtain v r2 where v: "scan_once n (skip_ws r1) = Some (v, r2)"
    by (cases "scan_once n (skip_ws r1)") auto
  from one[OF v] have jv: "json_value v" .
  from res s q k c1 colon v obtain c2 r3 where c2: "skip_ws r2 = c2 # r3"
    by (cases "skip_ws r2") auto
  show ?thesis
  proof (cases "c2 = CHR ''}''")
    case True
    with res s q k c1 colon v c2 jk jv show ?thesis by auto
  next
    case False
    with res s q k c1 colon v c2 obtain qs where
      w: "scan_object n (skip_ws r3) = Some (qs, r)" "ps = (k, v) # qs"
      by (cases "scan_object n (skip_ws r3)") (auto split: if_splits)
    from obj[OF w(1)] jk jv w(2) show ?thesis by simp
  qed
qed

lemma scanned_values_are_json:
  "(\<forall>s v r. scan_once n s = Some (v, r) \<longrightarrow> json_value v) \<and>
   (\<forall>s vs r. scan_array n s = Some (vs, r) \<longrightarrow> (\<forall>v \<in> set vs. json_value v)) \<and>
   (\<forall>s ps r. scan_object n s = Some (ps, r) \<longrightarrow>
      (\<forall>kv \<in> set ps. json_str (fst kv) \<and> json_value (snd kv)))"
proof (induction n)
  case 0
  show ?case by simp
next
  case (Suc n)
  then have one: "\<And>s v r. scan_once n s = Some (v, r) \<Longrightarrow> json_value v"
    and arr: "\<And>s vs r. scan_array n s = Some (vs, r) \<Longrightarrow> \<forall>v \<in> set vs. json_value v"
    and obj: "\<And>s ps r. scan_object n s = Some (ps, r) \<Longrightarrow>
                \<forall>kv \<in> set ps. json_str (fst kv) \<and> json_value (snd kv)"
    by blast+
  show ?case
  proof (intro conjI allI impI)
    fix s v r assume a: "scan_once (Suc n) s = Some (v, r)"
    show "json_value v"
    proof (rule scan_once_step[where n = n])
      show "\<And>s vs r. scan_array n s = Some (vs, r) \<Longrightarrow> \<forall>v \<in> set vs. json_value v"
        by (rule arr)
      show "\<And>s ps r. scan_object n s = Some (ps, r) \<Longrightarrow>
              \<forall>kv \<in> set ps. json_str (fst kv) \<and> json_value (snd kv)"
        by (rule obj)
      show "scan_once (Suc n) s = Some (v, r)" by (rule a)
    qed
  next
    fix s vs r assume a: "scan_array (Suc n) s = Some (vs, r)"
    show "\<forall>v \<in> set vs. json_value v"
    proof (rule scan_array_step[where n = n])
      show "\<And>s v r. scan_once n s = Some (v, r) \<Longrightarrow> json_value v" by (rule one)
      show "\<And>s vs r. scan_array n s = Some (vs, r) \<Longrightarrow> \<forall>v \<in> set vs. json_value v"
        by (rule arr)
      show "scan_array (Suc n) s = Some (vs, r)" by (rule a)
    qed
  next
    fix s ps r assume a: "scan_object (Suc n) s = Some (ps, r)"
    show "\<forall>kv \<in> set ps. json_str (fst kv) \<and> json_value (snd kv)"
    proof (rule scan_object_step[where n = n])
      show "\<And>s v r. scan_once n s = Some (v, r) \<Longrightarrow> json_value v" by (rule one)
      show "\<And>s ps r. scan_object n s = Some (ps, r) \<Longrightarrow>
              \<forall>kv \<in> set ps. json_str (fst kv) \<and> json_value (snd kv)"
        by (rule obj)
      show "scan_object (Suc n) s = Some (ps, r)" by (rule a)
    qed
  qed
qed

theorem json_loads_json_value: "json_loads s = Some v \<Longrightarrow> json_value v"
proof -
  assume a: "json_loads s = Some v"
  then obtain r where "scan_once (Suc (length s)) (skip_ws s) = Some (v, r)"
    by (auto simp add: json_loads_def split: option.splits if_splits)
  with scanned_values_are_json[of "Suc (length s)"] show ?thesis by blast
qed

section \<open>The stored body read back\<close>

text \<open>
  Claim C4. In a run that completes, the body of the one \<open>put_object\<close> call is
  \<open>json.dumps\<close> of what \<open>playlist_tracks\<close> returned, and \<open>json.loads\<close> of that body is
  that very value: same keys in the same order, same strings, numbers and nesting. The
  value is a JSON document as the API client decodes it (\<open>json_value\<close>): \<open>None\<close>,
  booleans, integers, strings, lists, and dictionaries with distinct string keys; by
  \<open>json_loads_json_value\<close> every value the decoder returns is one.
\<close>

theorem stored_body_parses_to_response:
  assumes "snd (lambda_handler w ev ctx) = Inr u"
  shows "\<exists>sp d body.
           (CallPlaylistTracks sp ''3OK8UdRoB6IfDEa1pNJTQE'', None) \<in> set (fst (lambda_handler w ev ctx)) \<and>
           playlist_tracks w sp ''3OK8UdRoB6IfDEa1pNJTQE'' = Inr d \<and>
           json_dumps d = Inr body \<and>
           puts (fst (lambda_handler w ev ctx)) =
             [(''spotifyv'',
               ''raw-data/to_processed/spotify_raw_'' @ str_datetime (now w) @ ''.json'',
               body)] \<and>
           (json_value d \<longrightarrow> json_loads body = Some d)"
  using assms
proof (cases rule: handler_runs[of w ev ctx])
  case (put_ok m sp pl d c body)
  have "json_value d \<longrightarrow> json_loads body = Some d"
  proof
    assume j: "json_value d"
    from put_ok(6) have "body = encode d"
      by (simp add: json_dumps_def split: if_splits)
    with json_loads_encode[OF j] show "json_loads body = Some d" by simp
  qed
  with put_ok show ?thesis by (simp add: puts_simps)
qed simp_all

theorem stored_body_parses_to_response_witness:
  "snd (lambda_handler example_world () ()) = Inr () \<and>
   json_value example_tracks \<and>
   puts (fst (lambda_handler example_world () ())) =
     [(''spotifyv'', ''raw-data/to_processed/spotify_raw_2024-01-15 10:30:45.123456.json'',
       encode example_tracks)] \<and>
   json_loads (encode example_tracks) = Some example_tracks"
proof -
  have s: "snd (lambda_handler example_world () ()) = Inr ()" by (simp add: example_run)
  have pt: "\<And>sp d. playlist_tracks example_world sp ''3OK8UdRoB6IfDEa1pNJTQE'' = Inr d \<Longrightarrow>
              d = example_tracks"
    by (simp add: example_world_def)
  from stored_body_parses_to_response[OF s] obtain sp d body where
    r: "playlist_tracks example_world sp ''3OK8UdRoB6IfDEa1pNJTQE'' = Inr d"
       "puts (fst (lambda_handler example_world () ())) =
          [(''spotifyv'',
            ''raw-data/to_processed/spotify_raw_'' @ str_datetime (now example_world) @ ''.json'',
            body)]"
       "json_value d \<longrightarrow> json_loads body = Some d"
    by (elim exE conjE)
  from pt[OF r(1)] have d: "d = example_tracks" .
  from r(2) have b: "body = encode example_tracks" by (simp add: example_run puts_simps)
  from r(3) d b json_value_example_tracks
  have "json_loads (encode example_tracks) = Some example_tracks" by simp
  with s json_value_example_tracks show ?thesis by (simp add: example_run puts_simps)
qed

end
